theory Spec2Isabelle
  imports Main "HOL-Library.Word"
begin

section \<open>Strings, as the source uses them\<close>

text \<open>
  A Go string is a sequence of bytes; it is modelled as \<open>string\<close> (a list of 8-bit
  characters). The functions of package \<open>strings\<close> and the \<open>fmt.Sprintf\<close> formats that
  \<open>prstatus.go\<close> calls are written out below, each for the arguments the source passes.
\<close>

definition dquote :: char where
  "dquote = CHR 0x22"

definition HasPrefix :: "string \<Rightarrow> string \<Rightarrow> bool" where
  \<comment> \<open>\<open>strings.HasPrefix(s, prefix)\<close>: \<open>len(s) >= len(prefix) && s[:len(prefix)] == prefix\<close>\<close>
  "HasPrefix s pre = (length pre \<le> length s \<and> take (length pre) s = pre)"

fun Contains :: "string \<Rightarrow> string \<Rightarrow> bool" where
  \<comment> \<open>\<open>strings.Contains(s, substr)\<close>: \<open>substr\<close> occurs at some offset of \<open>s\<close>\<close>
  "Contains [] sub = (sub = [])"
| "Contains (c # cs) sub = (HasPrefix (c # cs) sub \<or> Contains cs sub)"

fun Split :: "string \<Rightarrow> char \<Rightarrow> string list" where
  \<comment> \<open>\<open>strings.Split(s, sep)\<close> for a one-byte separator, which is all the source passes:
      the pieces of \<open>s\<close> between the separators, empty pieces included, \<open>[""]\<close> for \<open>""\<close>\<close>
  "Split [] sep = [[]]"
| "Split (c # cs) sep =
     (if c = sep then [] # Split cs sep
      else (case Split cs sep of
              [] \<Rightarrow> [[c]]
            | t # ts \<Rightarrow> (c # t) # ts))"

fun Join :: "string list \<Rightarrow> string \<Rightarrow> string" where
  \<comment> \<open>\<open>strings.Join(elems, sep)\<close>\<close>
  "Join [] sep = []"
| "Join [a] sep = a"
| "Join (a # b # rest) sep = a @ sep @ Join (b # rest) sep"

definition Sprintf_repo :: "string \<Rightarrow> string" where
  \<comment> \<open>\<open>fmt.Sprintf("repo:\"%s\"", v)\<close>\<close>
  "Sprintf_repo v = ''repo:'' @ [dquote] @ v @ [dquote]"

definition Sprintf_sp_repo :: "string \<Rightarrow> string" where
  \<comment> \<open>\<open>fmt.Sprintf(" repo:\"%s\"", v)\<close>\<close>
  "Sprintf_sp_repo v = '' repo:'' @ [dquote] @ v @ [dquote]"

section \<open>The dashboard agent and the query builder\<close>

record DashboardAgent =
  repos :: "string list"

definition ConstructSearchQuery :: "DashboardAgent \<Rightarrow> string \<Rightarrow> string" where
  \<comment> \<open>the \<open>range\<close> loop appends one token per configured repository, in slice order\<close>
  "ConstructSearchQuery da login =
     (let tokens = [''is:pr'', ''state:open'', ''author:'' @ login];
          tokens = foldl (\<lambda>tokens v. tokens @ [Sprintf_repo v]) tokens (repos da)
      in Join tokens '' '')"

fun anyScopeToken :: "string list \<Rightarrow> bool" where
  \<comment> \<open>the loop of \<open>queryConstrainsRepos\<close>: return true at the first token that starts
      with \<open>org:\<close> or \<open>repo:\<close>, false when the tokens are exhausted\<close>
  "anyScopeToken [] = False"
| "anyScopeToken (tkn # tkns) =
     (if HasPrefix tkn ''org:'' \<or> HasPrefix tkn ''repo:'' then True
      else anyScopeToken tkns)"

definition queryConstrainsRepos :: "string \<Rightarrow> bool" where
  "queryConstrainsRepos q = (let tkns = Split q CHR '' '' in anyScopeToken tkns)"

subsection \<open>The explicit-scope predicate as the specification words it\<close>

definition isSpace :: "char \<Rightarrow> bool" where
  \<comment> \<open>the ASCII white space characters: tab, line feed, vertical tab, form feed,
      carriage return and space\<close>
  "isSpace c = (c \<in> {CHR 0x09, CHR 0x0A, CHR 0x0B, CHR 0x0C, CHR 0x0D, CHR 0x20})"

fun spec_tokenize :: "string \<Rightarrow> string list" where
  \<comment> \<open>"tokenizes on whitespace": the pieces between white space characters\<close>
  "spec_tokenize [] = [[]]"
| "spec_tokenize (c # cs) =
     (if isSpace c then [] # spec_tokenize cs
      else (case spec_tokenize cs of
              [] \<Rightarrow> [[c]]
            | t # ts \<Rightarrow> (c # t) # ts))"

definition spec_hasExplicitScope :: "string \<Rightarrow> bool" where
  \<comment> \<open>"returns true iff any token starts with \<open>org:\<close> or \<open>repo:\<close>"\<close>
  "spec_hasExplicitScope q =
     list_ex (\<lambda>t. HasPrefix t ''org:'' \<or> HasPrefix t ''repo:'') (spec_tokenize q)"

section \<open>Errors\<close>

text \<open>
  A Go \<open>error\<close> is an interface value of which this program reads one thing, its text
  \<open>Error()\<close>. The record keeps, next to the text, what happened at the remote side
  (\<open>cause\<close>): no function of the program reads that field, it is there so that
  statements about the kind of a failure can be written down.
\<close>

datatype cause = Unauthorized | Network | ServerFault | Malformed

record error =
  cause :: cause
  Error :: string

section \<open>The data of a search\<close>

text \<open>
  The GraphQL scalars are \<open>githubql.Int\<close> (a 32-bit integer), \<open>githubql.Boolean\<close>,
  \<open>githubql.String\<close> and \<open>githubql.ID\<close> (kept as its text). Anonymous nested structs
  are records of their own; a field name that several structs share carries the name of
  its struct.
\<close>

record Label =
  Label_ID :: string
  Label_Name :: string

record Author =
  Author_Login :: string

record BaseRef =
  BaseRef_Name :: string
  BaseRef_Prefix :: string

record Owner =
  Owner_Login :: string

record Repository =
  Repository_Name :: string
  NameWithOwner :: string
  Owner :: Owner

record LabelNode =
  Label :: Label

record Labels =
  Labels_Nodes :: "LabelNode list"

record Milestone =
  Milestone_ID :: string
  Closed :: bool

record PullRequest =
  Number :: "32 word"
  Merged :: bool
  Title :: string
  Author :: Author
  BaseRef :: BaseRef
  HeadRefOID :: string
  Repository :: Repository
  Labels :: Labels
  Milestone :: Milestone

record RateLimit =
  Cost :: "32 word"
  Remaining :: "32 word"

record PageInfo =
  HasNextPage :: bool
  EndCursor :: string

record SearchNode =
  PullRequest :: PullRequest

record Search =
  PageInfo :: PageInfo
  Nodes :: "SearchNode list"

record searchQuery =
  RateLimit :: RateLimit
  Search :: Search

section \<open>The paginator\<close>

text \<open>
  The remote client is the interface \<open>githubClient\<close>, with the one method \<open>Query\<close>. A
  call fills the \<open>searchQuery\<close> it is given or returns an error, and may change the
  client and the world behind it: the model passes a state \<open>'s\<close> through every call.
  \<open>vars\<close> is the variable map of the request, with its two keys.

  Go's \<open>int\<close> is taken as 64 bits wide (the width on every 64-bit platform):
  \<open>int(sq.RateLimit.Cost)\<close> is the sign extension \<open>scast\<close>, and \<open>+=\<close> wraps.

  The \<open>for\<close> loop has no bound of its own, so it is a partial function: \<open>None\<close> is the
  run that never returns. Inside the loop \<open>Inl err\<close> is the \<open>return nil, err\<close>, and
  \<open>Inr\<close> carries the three variables at the \<open>break\<close>.
\<close>

record vars =
  var_query :: string
  var_searchCursor :: "string option"

type_synonym 's githubClient = "'s \<Rightarrow> vars \<Rightarrow> (error + searchQuery) \<times> 's"

partial_function (option) QueryPullRequests_loop ::
  "'s githubClient \<Rightarrow> vars \<Rightarrow> 's \<Rightarrow> PullRequest list \<Rightarrow> 64 word \<Rightarrow> 64 word \<Rightarrow>
   ((error + PullRequest list \<times> 64 word \<times> 64 word) \<times> 's) option"
where
  "QueryPullRequests_loop ghc vars st prs totalCost remaining =
     (case ghc st vars of
        (Inl err, st') \<Rightarrow> Some (Inl err, st')
      | (Inr sq, st') \<Rightarrow>
          (let totalCost = totalCost + scast (Cost (RateLimit sq));
               remaining = scast (Remaining (RateLimit sq));
               prs = foldl (\<lambda>prs n. prs @ [PullRequest n]) prs (Nodes (Search sq))
           in if \<not> HasNextPage (PageInfo (Search sq))
              then Some (Inr (prs, totalCost, remaining), st')
              else QueryPullRequests_loop ghc
                     (vars\<lparr>var_searchCursor := Some (EndCursor (PageInfo (Search sq)))\<rparr>)
                     st' prs totalCost remaining))"


text \<open>
  What a call of \<open>QueryPullRequests\<close> leaves behind: the two values it returns, the
  arguments of each \<open>da.log.Infof\<close> it made (query, total cost, remaining), and the state
  of the client.
\<close>

record 's query_outcome =
  returned_prs :: "PullRequest list"
  returned_err :: "error option"
  log_Infof :: "(string \<times> 64 word \<times> 64 word) list"
  client_after :: 's

definition QueryPullRequests ::
  "'s githubClient \<Rightarrow> 's \<Rightarrow> string \<Rightarrow> 's query_outcome option"
where
  "QueryPullRequests ghc st query =
     (case QueryPullRequests_loop ghc \<lparr>var_query = query, var_searchCursor = None\<rparr> st [] 0 0 of
        None \<Rightarrow> None
      | Some (Inl err, st') \<Rightarrow>
          Some \<lparr>returned_prs = [], returned_err = Some err, log_Infof = [], client_after = st'\<rparr>
      | Some (Inr (prs, totalCost, remaining), st') \<Rightarrow>
          Some \<lparr>returned_prs = prs, returned_err = None,
                log_Infof = [(query, totalCost, remaining)], client_after = st'\<rparr>)"

text \<open>
  \<open>pages_served ghc q st cur pages st'\<close>: asked for \<open>q\<close> from state \<open>st\<close>, first with
  cursor \<open>cur\<close> and then with the end cursor of each page in turn, the client answers
  with the pages \<open>pages\<close>, all of which but the last report a next page, and is left in
  state \<open>st'\<close>. \<open>page_fails\<close> is the same run cut short: every page of \<open>pages\<close> reports a
  next page, and the request after them fails with \<open>e\<close>.
\<close>

fun pages_served ::
  "'s githubClient \<Rightarrow> string \<Rightarrow> 's \<Rightarrow> string option \<Rightarrow> searchQuery list \<Rightarrow> 's \<Rightarrow> bool"
where
  "pages_served ghc q st cur [] st' = False"
| "pages_served ghc q st cur [p] st' =
     (ghc st \<lparr>var_query = q, var_searchCursor = cur\<rparr> = (Inr p, st') \<and>
      \<not> HasNextPage (PageInfo (Search p)))"
| "pages_served ghc q st cur (p # p' # ps) st' =
     (fst (ghc st \<lparr>var_query = q, var_searchCursor = cur\<rparr>) = Inr p \<and>
      HasNextPage (PageInfo (Search p)) \<and>
      pages_served ghc q (snd (ghc st \<lparr>var_query = q, var_searchCursor = cur\<rparr>))
        (Some (EndCursor (PageInfo (Search p)))) (p' # ps) st')"

fun page_fails ::
  "'s githubClient \<Rightarrow> string \<Rightarrow> 's \<Rightarrow> string option \<Rightarrow> searchQuery list \<Rightarrow> error \<Rightarrow> 's \<Rightarrow> bool"
where
  "page_fails ghc q st cur [] e st' =
     (ghc st \<lparr>var_query = q, var_searchCursor = cur\<rparr> = (Inl e, st'))"
| "page_fails ghc q st cur (p # ps) e st' =
     (fst (ghc st \<lparr>var_query = q, var_searchCursor = cur\<rparr>) = Inr p \<and>
      HasNextPage (PageInfo (Search p)) \<and>
      page_fails ghc q (snd (ghc st \<lparr>var_query = q, var_searchCursor = cur\<rparr>))
        (Some (EndCursor (PageInfo (Search p)))) ps e st')"


subsection \<open>A client for three pages, and one that fails on the second page\<close>

definition pr :: "32 word \<Rightarrow> PullRequest" where
  "pr n = \<lparr>Number = n, Merged = False, Title = ''t'',
           Author = \<lparr>Author_Login = ''alice''\<rparr>,
           BaseRef = \<lparr>BaseRef_Name = ''master'', BaseRef_Prefix = ''refs/heads/''\<rparr>,
           HeadRefOID = ''abc'',
           Repository = \<lparr>Repository_Name = ''r'', NameWithOwner = ''o/r'',
                         Owner = \<lparr>Owner_Login = ''o''\<rparr>\<rparr>,
           Labels = \<lparr>Labels_Nodes = []\<rparr>,
           Milestone = \<lparr>Milestone_ID = ''m'', Closed = False\<rparr>\<rparr>"

definition page :: "32 word \<Rightarrow> 32 word \<Rightarrow> bool \<Rightarrow> string \<Rightarrow> 32 word list \<Rightarrow> searchQuery" where
  "page c r nxt cur ns =
     \<lparr>RateLimit = \<lparr>Cost = c, Remaining = r\<rparr>,
      Search = \<lparr>PageInfo = \<lparr>HasNextPage = nxt, EndCursor = cur\<rparr>,
                Nodes = map (\<lambda>n. \<lparr>PullRequest = pr n\<rparr>) ns\<rparr>\<rparr>"

definition transport_error :: error where
  "transport_error = \<lparr>cause = Network, Error = ''connection reset by peer''\<rparr>"

definition three_pages :: "nat githubClient" where
  \<comment> \<open>the state counts the requests; a request is answered only with the cursor that the
      page before it handed out\<close>
  "three_pages n vs =
     (if n = 0 \<and> var_searchCursor vs = None
        then Inr (page 1 4999 True ''c1'' [1, 2])
      else if n = 1 \<and> var_searchCursor vs = Some ''c1''
        then Inr (page 1 4998 True ''c2'' [3, 4])
      else if n = 2 \<and> var_searchCursor vs = Some ''c2''
        then Inr (page 2 4996 False ''c3'' [5])
      else Inl transport_error,
      Suc n)"

definition fails_on_page_2 :: "nat githubClient" where
  "fails_on_page_2 n vs =
     (if n = 0 \<and> var_searchCursor vs = None
        then Inr (page 1 4999 True ''c1'' [1, 2])
      else Inl transport_error,
      Suc n)"

section \<open>The request handler\<close>

text \<open>
  The constants of the package. Times are seconds since the epoch, and a duration is a
  number of seconds.
\<close>

definition loginSession :: string where
  "loginSession = ''github_login''"

definition tokenKey :: string where
  "tokenKey = ''access-token''"

definition loginKey :: string where
  "loginKey = ''login''"

definition Hour :: int where
  "Hour = 3600"

definition StatusInternalServerError :: nat where
  "StatusInternalServerError = 500"

subsection \<open>What the handler reads\<close>

text \<open>
  \<open>oauth2.Token\<close>, of which the handler reads the access token; \<open>gogithub.User\<close>, whose
  \<open>Login\<close> is a pointer and may be nil; the session of the cookie store, with the map
  \<open>Values\<close> (a stored value is an \<open>interface{}\<close>: a token pointer, a string or anything
  else) and the field \<open>Options.MaxAge\<close>; \<open>http.Cookie\<close>; and \<open>url.Values\<close> with its
  method \<open>Get\<close>, the first value of a key or the empty string.
\<close>

record Token =
  AccessToken :: string

record User =
  User_Login :: "string option"

datatype session_value =
    TokenValue "Token option"
  | StringValue string
  | OtherValue

record session =
  Values :: "string \<rightharpoonup> session_value"
  Options_MaxAge :: int

record Cookie =
  Cookie_Name :: string
  Cookie_Value :: string
  Cookie_Path :: string
  Cookie_Expires :: int
  Cookie_MaxAge :: int
  Cookie_Secure :: bool

type_synonym url_Values = "string \<rightharpoonup> string list"

definition Values_Get :: "url_Values \<Rightarrow> string \<Rightarrow> string" where
  "Values_Get v key = (case v key of None \<Rightarrow> [] | Some [] \<Rightarrow> [] | Some (x # xs) \<Rightarrow> x)"

record UserData =
  Login :: bool
  PullRequests :: "PullRequest list"

text \<open>
  The request: the parsed query of its URL, and what \<open>r.ParseForm()\<close> returns and
  leaves in \<open>r.Form\<close>.
\<close>

record Request =
  URL_Query :: url_Values
  ParseForm_err :: "error option"
  Form :: url_Values

text \<open>
  The collaborators outside this file, each by the answer it gives during the request:
  the cookie store's \<open>Get\<close> for the token session; the method \<open>Valid\<close> of a non-nil \<open>oauth2\<close>
  token (a nil token is not valid); \<open>GetUser("")\<close> of the REST client made from an
  access token, with both of its results; \<open>session.Save\<close> of a session; the clock; and
  \<open>json.Marshal\<close> of the response data. The query handler is the argument of
  \<open>HandlePrStatus\<close>: from the access token of the GraphQL client and the query to both
  results of its \<open>QueryPullRequests\<close>.
\<close>

record world =
  CookieStore_Get :: "session \<times> error option"
  token_Valid :: "Token \<Rightarrow> bool"
  GetUser :: "string \<Rightarrow> User option \<times> error option"
  session_Save :: "session \<Rightarrow> error option"
  now :: int
  json_Marshal :: "UserData \<Rightarrow> error + string"

type_synonym PullRequestQueryHandler = "string \<Rightarrow> string \<Rightarrow> PullRequest list \<times> error option"

subsection \<open>What the handler does\<close>

text \<open>
  The handler returns nothing; what it does is the sequence of its calls on the response
  writer, the log and the collaborators, in order. \<open>Ev_Panic\<close> is the nil dereference
  that ends the handler.
\<close>

datatype event =
    Ev_GetUser string
  | Ev_Save session "error option"
  | Ev_SetCookie Cookie
  | Ev_LogError string error
  | Ev_HttpError string nat
  | Ev_Query string string
  | Ev_Marshal UserData
  | Ev_Write string
  | Ev_Panic

datatype 'a step =
    Return "event list"
  | Continue "event list" 'a

definition serverError :: "string \<Rightarrow> error \<Rightarrow> event list" where
  \<comment> \<open>the closure \<open>serverError\<close>: log, then \<open>http.Error\<close> with status 500\<close>
  "serverError action err =
     [Ev_LogError (''Error '' @ action @ ''.'') err,
      Ev_HttpError (''500 Internal server error '' @ action @ '': '' @ Error err)
        StatusInternalServerError]"

definition HandlePrStatus_validate ::
  "world \<Rightarrow> session \<Rightarrow> Token option \<Rightarrow> bool \<Rightarrow> (User option \<times> session) step"
where
  \<comment> \<open>\<open>var user *gogithub.User; if ok && token.Valid() { ... }\<close>\<close>
  "HandlePrStatus_validate w session token ok =
     (case (if ok then token else None) of
        None \<Rightarrow> Continue [] (None, session)
      | Some t \<Rightarrow>
          if \<not> token_Valid w t then Continue [] (None, session)
          else
            (case GetUser w (AccessToken t) of
               (user, None) \<Rightarrow> Continue [Ev_GetUser (AccessToken t)] (user, session)
             | (user, Some err) \<Rightarrow>
                 if Contains (Error err) ''401'' then
                   (let session = session\<lparr>Options_MaxAge := - 1\<rparr> in
                    case session_Save w session of
                      Some err \<Rightarrow>
                        Return ([Ev_GetUser (AccessToken t), Ev_Save session (Some err)] @
                                serverError ''Error with saving invalidated session'' err)
                    | None \<Rightarrow>
                        Continue
                          [Ev_GetUser (AccessToken t), Ev_Save session None,
                           Ev_SetCookie
                             \<lparr>Cookie_Name = loginSession, Cookie_Value = [],
                              Cookie_Path = ''/'', Cookie_Expires = now w + - Hour * 24,
                              Cookie_MaxAge = - 1, Cookie_Secure = True\<rparr>]
                          (user, session))
                 else
                   Return ([Ev_GetUser (AccessToken t)] @
                           serverError ''Error with getting user login'' err)))"

definition HandlePrStatus_query :: "DashboardAgent \<Rightarrow> Request \<Rightarrow> string \<Rightarrow> string" where
  \<comment> \<open>from \<open>query := da.ConstructSearchQuery(login)\<close> to the end of the \<open>range\<close> loop
      that appends the configured repositories\<close>
  "HandlePrStatus_query da r login =
     (let query = ConstructSearchQuery da login;
          query = (case ParseForm_err r of
                     None \<Rightarrow> (let q = Values_Get (Form r) ''query''
                              in if q \<noteq> [] then q else query)
                   | Some err \<Rightarrow> query)
      in if \<not> queryConstrainsRepos query
         then foldl (\<lambda>query v. query @ Sprintf_sp_repo v) query (repos da)
         else query)"

definition HandlePrStatus_login ::
  "DashboardAgent \<Rightarrow> PullRequestQueryHandler \<Rightarrow> world \<Rightarrow> Request \<Rightarrow> session \<Rightarrow>
   Token option \<Rightarrow> User option \<Rightarrow> UserData step"
where
  \<comment> \<open>\<open>if user != nil { ... }\<close>, starting from \<open>data := UserData{Login: false}\<close>\<close>
  "HandlePrStatus_login da queryHandler w r session token user =
     (let data = \<lparr>Login = False, PullRequests = []\<rparr> in
      case user of
        None \<Rightarrow> Continue [] data
      | Some u \<Rightarrow>
          (case User_Login u of
             None \<Rightarrow> Return [Ev_Panic]
           | Some login \<Rightarrow>
               (let data = data\<lparr>Login := True\<rparr>;
                    cookie = \<lparr>Cookie_Name = loginSession, Cookie_Value = login,
                              Cookie_Path = ''/'', Cookie_Expires = now w + Hour * 24 * 30,
                              Cookie_MaxAge = 0, Cookie_Secure = True\<rparr>;
                    session = session\<lparr>Values := (Values session)(loginKey \<mapsto> StringValue login)\<rparr>
                in case session_Save w session of
                     Some err \<Rightarrow>
                       Return ([Ev_SetCookie cookie, Ev_Save session (Some err)] @
                               serverError ''Save oauth session'' err)
                   | None \<Rightarrow>
                       (case token of
                          None \<Rightarrow> Return [Ev_SetCookie cookie, Ev_Save session None, Ev_Panic]
                        | Some t \<Rightarrow>
                            (let query = HandlePrStatus_query da r login in
                             case queryHandler (AccessToken t) query of
                               (pullRequests, Some err) \<Rightarrow>
                                 Return ([Ev_SetCookie cookie, Ev_Save session None,
                                          Ev_Query (AccessToken t) query] @
                                         serverError ''Error with querying user data.'' err)
                             | (pullRequests, None) \<Rightarrow>
                                 Continue [Ev_SetCookie cookie, Ev_Save session None,
                                           Ev_Query (AccessToken t) query]
                                   (data\<lparr>PullRequests := pullRequests\<rparr>))))))"

definition HandlePrStatus_respond :: "world \<Rightarrow> Request \<Rightarrow> UserData \<Rightarrow> event list" where
  \<comment> \<open>from \<open>json.Marshal(data)\<close> to the end; after a failed \<open>Marshal\<close> the bytes are nil\<close>
  "HandlePrStatus_respond w r data =
     (let (marshaledData, logged) =
            (case json_Marshal w data of
               Inl err \<Rightarrow> ([], [Ev_LogError ''Error with marshalling user data.'' err])
             | Inr bytes \<Rightarrow> (bytes, []));
          v = Values_Get (URL_Query r) ''var''
      in [Ev_Marshal data] @ logged @
         (if v \<noteq> [] then [Ev_Write (''var '' @ v @ '' = ''), Ev_Write marshaledData, Ev_Write '';'']
          else [Ev_Write marshaledData]))"

definition HandlePrStatus ::
  "DashboardAgent \<Rightarrow> PullRequestQueryHandler \<Rightarrow> world \<Rightarrow> Request \<Rightarrow> event list"
where
  "HandlePrStatus da queryHandler w r =
     (case CookieStore_Get w of
        (session, Some err) \<Rightarrow> serverError ''Error with getting git token session.'' err
      | (session, None) \<Rightarrow>
          (let (token, ok) =
                 (case Values session tokenKey of
                    Some (TokenValue t) \<Rightarrow> (t, True)
                  | _ \<Rightarrow> (None, False))
           in case HandlePrStatus_validate w session token ok of
                Return tr \<Rightarrow> tr
              | Continue tr (user, session) \<Rightarrow>
                  (case HandlePrStatus_login da queryHandler w r session token user of
                     Return tr' \<Rightarrow> tr @ tr'
                   | Continue tr' data \<Rightarrow> tr @ tr' @ HandlePrStatus_respond w r data)))"

subsection \<open>Reading a trace\<close>

text \<open>
  The response body is what the \<open>Write\<close> calls wrote, \<open>http.Error\<close> writing its message
  and a line feed; the other functions pick the events of one kind.
\<close>

fun body_of :: "event list \<Rightarrow> string" where
  "body_of [] = []"
| "body_of (Ev_Write s # es) = s @ body_of es"
| "body_of (Ev_HttpError msg code # es) = msg @ [CHR 0x0A] @ body_of es"
| "body_of (e # es) = body_of es"

fun http_errors :: "event list \<Rightarrow> nat list" where
  "http_errors [] = []"
| "http_errors (Ev_HttpError msg code # es) = code # http_errors es"
| "http_errors (e # es) = http_errors es"

fun cookies_set :: "event list \<Rightarrow> Cookie list" where
  "cookies_set [] = []"
| "cookies_set (Ev_SetCookie c # es) = c # cookies_set es"
| "cookies_set (e # es) = cookies_set es"

fun sessions_saved :: "event list \<Rightarrow> (session \<times> error option) list" where
  "sessions_saved [] = []"
| "sessions_saved (Ev_Save s res # es) = (s, res) # sessions_saved es"
| "sessions_saved (e # es) = sessions_saved es"

fun marshalled :: "event list \<Rightarrow> UserData list" where
  "marshalled [] = []"
| "marshalled (Ev_Marshal d # es) = d # marshalled es"
| "marshalled (e # es) = marshalled es"

fun queries_issued :: "event list \<Rightarrow> (string \<times> string) list" where
  "queries_issued [] = []"
| "queries_issued (Ev_Query tok q # es) = (tok, q) # queries_issued es"
| "queries_issued (e # es) = queries_issued es"

subsection \<open>The validation outcomes as the specification words them\<close>

datatype outcome = Rejected | TransientError

definition spec_classify :: "error \<Rightarrow> outcome" where
  \<comment> \<open>"\<open>Rejected\<close> (remote signals an authorization failure), \<open>TransientError\<close> (any other
      failure: network, 5xx, malformed response)"\<close>
  "spec_classify e = (if cause e = Unauthorized then Rejected else TransientError)"

subsection \<open>Requests and worlds to run the handler on\<close>

definition stored_token :: Token where
  "stored_token = \<lparr>AccessToken = ''tok''\<rparr>"

definition token_session :: session where
  "token_session =
     \<lparr>Values = [tokenKey \<mapsto> TokenValue (Some stored_token)], Options_MaxAge = 2592000\<rparr>"

definition empty_session :: session where
  "empty_session = \<lparr>Values = Map.empty, Options_MaxAge = 2592000\<rparr>"

definition logged_out_json :: string where
  "logged_out_json =
     ''{'' @ [dquote] @ ''Login'' @ [dquote] @ '':false,'' @
     [dquote] @ ''PullRequests'' @ [dquote] @ '':null}''"

definition stub_Marshal :: "UserData \<Rightarrow> error + string" where
  \<comment> \<open>stands in for \<open>json.Marshal\<close>: exact on the logged-out data, a placeholder otherwise\<close>
  "stub_Marshal d = Inr (if Login d then ''{...}'' else logged_out_json)"

definition bad_credentials :: error where
  "bad_credentials =
     \<lparr>cause = Unauthorized,
      Error = ''GET https://api.github.com/user: 401 Bad credentials []''\<rparr>"

definition bad_gateway :: error where
  "bad_gateway =
     \<lparr>cause = ServerFault,
      Error = ''GET https://api.github.com/user: 502 Server Error []''\<rparr>"

definition connection_reset :: error where
  \<comment> \<open>a network failure whose text carries the local port 40112\<close>
  "connection_reset =
     \<lparr>cause = Network,
      Error = ''read tcp 10.4.0.12:40112->140.82.113.5:443: read: connection reset by peer''\<rparr>"

definition connection_reset_40212 :: error where
  \<comment> \<open>the same failure from the local port 40212\<close>
  "connection_reset_40212 =
     \<lparr>cause = Network,
      Error = ''read tcp 10.4.0.12:40212->140.82.113.5:443: read: connection reset by peer''\<rparr>"

definition store_down :: error where
  "store_down = \<lparr>cause = Network, Error = ''securecookie: error - caught panic''\<rparr>"

definition unsupported_value :: error where
  "unsupported_value = \<lparr>cause = Malformed, Error = ''json: unsupported value: NaN''\<rparr>"

definition failing_Marshal :: "UserData \<Rightarrow> error + string" where
  \<comment> \<open>a \<open>json.Marshal\<close> that cannot encode the pull requests it is given\<close>
  "failing_Marshal d = (if PullRequests d = [] then stub_Marshal d else Inl unsupported_value)"

definition anonymous_world :: world where
  \<comment> \<open>no credential in the session\<close>
  "anonymous_world =
     \<lparr>CookieStore_Get = (empty_session, None), token_Valid = (\<lambda>t. True),
      GetUser = (\<lambda>tok. (None, Some bad_credentials)), session_Save = (\<lambda>s. None),
      now = 1700000000, json_Marshal = stub_Marshal\<rparr>"

definition rejecting_world :: world where
  \<comment> \<open>a stored credential that the remote service answers with 401\<close>
  "rejecting_world = anonymous_world\<lparr>CookieStore_Get := (token_session, None)\<rparr>"

definition alice :: User where
  "alice = \<lparr>User_Login = Some ''alice''\<rparr>"

definition accepting_world :: world where
  \<comment> \<open>a stored credential that the remote service accepts, for the user alice\<close>
  "accepting_world = rejecting_world\<lparr>GetUser := (\<lambda>tok. (Some alice, None))\<rparr>"

definition plain_request :: Request where
  "plain_request = \<lparr>URL_Query = Map.empty, ParseForm_err = None, Form = Map.empty\<rparr>"

definition var_request :: Request where
  \<comment> \<open>\<open>/pr-status?var=data\<close>\<close>
  "var_request =
     \<lparr>URL_Query = [''var'' \<mapsto> [''data'']], ParseForm_err = None,
      Form = [''var'' \<mapsto> [''data'']]\<rparr>"

definition override_request :: Request where
  \<comment> \<open>\<open>/pr-status?query=is:pr+org:kubernetes\<close>\<close>
  "override_request =
     \<lparr>URL_Query = [''query'' \<mapsto> [''is:pr org:kubernetes'']], ParseForm_err = None,
      Form = [''query'' \<mapsto> [''is:pr org:kubernetes'']]\<rparr>"

definition unscoped_request :: Request where
  \<comment> \<open>\<open>/pr-status?query=is:open\<close>\<close>
  "unscoped_request =
     \<lparr>URL_Query = [''query'' \<mapsto> [''is:open'']], ParseForm_err = None,
      Form = [''query'' \<mapsto> [''is:open'']]\<rparr>"

definition two_repos :: DashboardAgent where
  "two_repos = \<lparr>repos = [''o/r1'', ''o/r2'']\<rparr>"

definition no_results :: PullRequestQueryHandler where
  "no_results tok q = ([], None)"

definition one_result :: PullRequestQueryHandler where
  "one_result tok q = ([pr 7], None)"

section \<open>Properties of the query builder\<close>

lemma Join_space_append:
  "xs \<noteq> [] \<Longrightarrow> Join (xs @ [y]) '' '' = Join xs '' '' @ '' '' @ y"
  by (induction xs "'' ''" rule: Join.induct) simp_all

lemma foldl_tokens:
  "foldl (\<lambda>tokens v. tokens @ [Sprintf_repo v]) ts rs = ts @ map Sprintf_repo rs"
  by (induction rs arbitrary: ts) simp_all

lemma Join_space_map:
  "xs \<noteq> [] \<Longrightarrow>
   Join (xs @ map Sprintf_repo rs) '' '' = Join xs '' '' @ concat (map Sprintf_sp_repo rs)"
proof (induction rs rule: rev_induct)
  case Nil
  then show ?case by simp
next
  case (snoc r rs)
  have step: "Join ((xs @ map Sprintf_repo rs) @ [Sprintf_repo r]) '' '' =
        Join (xs @ map Sprintf_repo rs) '' '' @ '' '' @ Sprintf_repo r"
    using snoc.prems by (intro Join_space_append) simp
  have sp: "'' '' @ Sprintf_repo r = Sprintf_sp_repo r"
    by (simp add: Sprintf_repo_def Sprintf_sp_repo_def)
  have "Join (xs @ map Sprintf_repo (rs @ [r])) '' '' =
        Join ((xs @ map Sprintf_repo rs) @ [Sprintf_repo r]) '' ''"
    by simp
  also have "\<dots> = (Join xs '' '' @ concat (map Sprintf_sp_repo rs)) @ Sprintf_sp_repo r"
    unfolding step snoc.IH [OF snoc.prems] sp [symmetric] by simp
  also have "\<dots> = Join xs '' '' @ concat (map Sprintf_sp_repo (rs @ [r]))"
    by simp
  finally show ?case .
qed

lemma ConstructSearchQuery_concat:
  "ConstructSearchQuery d login =
     ''is:pr state:open author:'' @ login @ concat (map Sprintf_sp_repo (repos d))"
  unfolding ConstructSearchQuery_def Let_def foldl_tokens
  using Join_space_map [of "[''is:pr'', ''state:open'', ''author:'' @ login]" "repos d"]
  by simp

text \<open>
  C1. \<open>ConstructSearchQuery\<close> returns exactly \<open>is:pr state:open author:<login>\<close> followed,
  for each entry of the configured scope in slice order, by a single space and the token
  \<open>repo:"<id>"\<close>; with an empty scope it returns exactly the base query. The operation is
  a total function of the agent and the login: it has no state to change and no error
  result.
\<close>

theorem ConstructSearchQuery_exact:
  "ConstructSearchQuery da login =
     ''is:pr state:open author:'' @ login @
     concat (map (\<lambda>v. '' repo:'' @ [CHR 0x22] @ v @ [CHR 0x22]) (repos da))
   \<and> ConstructSearchQuery (da\<lparr>repos := []\<rparr>) login = ''is:pr state:open author:'' @ login"
proof -
  have fn: "Sprintf_sp_repo = (\<lambda>v. '' repo:'' @ [CHR 0x22] @ v @ [CHR 0x22])"
    by (rule ext) (simp add: Sprintf_sp_repo_def dquote_def)
  show ?thesis
    using ConstructSearchQuery_concat [of da login]
      ConstructSearchQuery_concat [of "da\<lparr>repos := []\<rparr>" login]
    by (simp add: fn)
qed

section \<open>Properties of the explicit-scope predicate\<close>

lemma anyScopeToken_iff:
  "anyScopeToken ts \<longleftrightarrow> (\<exists>t\<in>set ts. HasPrefix t ''org:'' \<or> HasPrefix t ''repo:'')"
  by (induction ts) auto

lemma Split_not_Nil: "Split s sep \<noteq> []"
  by (induction s) (auto split: list.splits)

lemma Split_append_sep: "Split (a @ sep # b) sep = Split a sep @ Split b sep"
proof (induction a)
  case Nil
  show ?case by simp
next
  case (Cons c a)
  obtain t ts where "Split a sep = t # ts"
    using Split_not_Nil [of a sep] by (cases "Split a sep") auto
  with Cons show ?case by simp
qed

lemma hd_Split_Cons:
  "hd (Split (c # cs) sep) = (if c = sep then [] else c # hd (Split cs sep))"
  using Split_not_Nil [of cs sep] by (cases "Split cs sep") auto

lemma HasPrefix_append: "HasPrefix (p @ s) p"
  by (simp add: HasPrefix_def)

lemma HasPrefix_iff: "HasPrefix s p \<longleftrightarrow> (\<exists>suf. s = p @ suf)"
  unfolding HasPrefix_def
  by (metis append_eq_conv_conj append_take_drop_id length_append le_add1)

lemma Split_hd_prefix: "Split q sep = u # us \<Longrightarrow> \<exists>suf. q = u @ suf"
proof (induction q arbitrary: u us)
  case Nil
  then show ?case by simp
next
  case (Cons c q)
  obtain v vs where sp: "Split q sep = v # vs"
    using Split_not_Nil [of q sep] by (cases "Split q sep") auto
  from Cons.IH [OF sp] obtain suf where "q = v @ suf" ..
  with Cons.prems sp show ?case by (auto split: if_splits)
qed

lemma Split_tl_piece:
  "Split q sep = u # us \<Longrightarrow> t \<in> set us \<Longrightarrow> \<exists>pre suf. q = pre @ sep # t @ suf"
proof (induction q arbitrary: u us)
  case Nil
  then show ?case by simp
next
  case (Cons c q)
  obtain v vs where sp: "Split q sep = v # vs"
    using Split_not_Nil [of q sep] by (cases "Split q sep") auto
  show ?case
  proof (cases "c = sep")
    case True
    with Cons.prems have "us = Split q sep" by simp
    with Cons.prems(2) sp have "t = v \<or> t \<in> set vs" by simp
    then show ?thesis
    proof
      assume "t = v"
      with Split_hd_prefix [OF sp] obtain suf where "q = t @ suf" by blast
      then have "c # q = [] @ sep # t @ suf" using True by simp
      then show ?thesis by blast
    next
      assume "t \<in> set vs"
      from Cons.IH [OF sp this] obtain pre suf where "q = pre @ sep # t @ suf" by blast
      then have "c # q = (c # pre) @ sep # t @ suf" by simp
      then show ?thesis by blast
    qed
  next
    case False
    with Cons.prems(1) sp have "us = vs" by simp
    with Cons.prems(2) have "t \<in> set vs" by simp
    from Cons.IH [OF sp this] obtain pre suf where "q = pre @ sep # t @ suf" by blast
    then have "c # q = (c # pre) @ sep # t @ suf" by simp
    then show ?thesis by blast
  qed
qed

lemma Split_piece:
  assumes "t \<in> set (Split q sep)"
  shows "(\<exists>suf. q = t @ suf) \<or> (\<exists>pre suf. q = pre @ sep # t @ suf)"
proof -
  obtain u us where sp: "Split q sep = u # us"
    using Split_not_Nil [of q sep] by (cases "Split q sep") auto
  with assms have "t = u \<or> t \<in> set us" by auto
  then show ?thesis
    using Split_hd_prefix [OF sp] Split_tl_piece [OF sp] by blast
qed

lemma hd_Split_in: "hd (Split q sep) \<in> set (Split q sep)"
  using Split_not_Nil [of q sep] by simp

lemma scope_at_start:
  "anyScopeToken (Split (''org:'' @ suf) CHR '' '')"
  "anyScopeToken (Split (''repo:'' @ suf) CHR '' '')"
proof -
  have "hd (Split (''org:'' @ suf) CHR '' '') = ''org:'' @ hd (Split suf CHR '' '')"
    by (simp add: hd_Split_Cons del: Split.simps)
  then have "HasPrefix (hd (Split (''org:'' @ suf) CHR '' '')) ''org:''"
    by (simp only: HasPrefix_append)
  then show "anyScopeToken (Split (''org:'' @ suf) CHR '' '')"
    unfolding anyScopeToken_iff using hd_Split_in by blast
  have "hd (Split (''repo:'' @ suf) CHR '' '') = ''repo:'' @ hd (Split suf CHR '' '')"
    by (simp add: hd_Split_Cons del: Split.simps)
  then have "HasPrefix (hd (Split (''repo:'' @ suf) CHR '' '')) ''repo:''"
    by (simp only: HasPrefix_append)
  then show "anyScopeToken (Split (''repo:'' @ suf) CHR '' '')"
    unfolding anyScopeToken_iff using hd_Split_in by blast
qed

lemma anyScopeToken_append:
  "anyScopeToken (xs @ ys) \<longleftrightarrow> anyScopeToken xs \<or> anyScopeToken ys"
  by (induction xs) simp_all

lemma queryConstrainsRepos_after_space:
  "queryConstrainsRepos (pre @ '' org:'' @ suf)"
  "queryConstrainsRepos (pre @ '' repo:'' @ suf)"
proof -
  have "pre @ '' org:'' @ suf = pre @ CHR '' '' # (''org:'' @ suf)" by simp
  then show "queryConstrainsRepos (pre @ '' org:'' @ suf)"
    unfolding queryConstrainsRepos_def Let_def
    by (simp only: Split_append_sep anyScopeToken_append scope_at_start simp_thms)
  have "pre @ '' repo:'' @ suf = pre @ CHR '' '' # (''repo:'' @ suf)" by simp
  then show "queryConstrainsRepos (pre @ '' repo:'' @ suf)"
    unfolding queryConstrainsRepos_def Let_def
    by (simp only: Split_append_sep anyScopeToken_append scope_at_start simp_thms)
qed

lemma queryConstrainsRepos_iff_positions:
  "queryConstrainsRepos q \<longleftrightarrow>
     (\<exists>suf. q = ''org:'' @ suf) \<or> (\<exists>suf. q = ''repo:'' @ suf) \<or>
     (\<exists>pre suf. q = pre @ '' org:'' @ suf) \<or> (\<exists>pre suf. q = pre @ '' repo:'' @ suf)"
  (is "?L \<longleftrightarrow> ?R")
proof
  assume ?L
  then obtain t where t: "t \<in> set (Split q CHR '' '')"
      and pf: "HasPrefix t ''org:'' \<or> HasPrefix t ''repo:''"
    unfolding queryConstrainsRepos_def Let_def anyScopeToken_iff by blast
  from pf obtain kw r where kw: "kw = ''org:'' \<or> kw = ''repo:''" and tk: "t = kw @ r"
    unfolding HasPrefix_iff by blast
  from Split_piece [OF t] show ?R
  proof
    assume "\<exists>suf. q = t @ suf"
    then obtain suf where "q = kw @ (r @ suf)" using tk by auto
    with kw show ?R by blast
  next
    assume "\<exists>pre suf. q = pre @ CHR '' '' # t @ suf"
    then obtain pre suf where "q = pre @ CHR '' '' # kw @ (r @ suf)" using tk by auto
    with kw have "q = pre @ '' org:'' @ (r @ suf) \<or> q = pre @ '' repo:'' @ (r @ suf)" by auto
    then show ?R by blast
  qed
next
  assume ?R
  then show ?L
    using queryConstrainsRepos_after_space scope_at_start
    unfolding queryConstrainsRepos_def Let_def by metis
qed


text \<open>
  C2, as the code has it. \<open>queryConstrainsRepos\<close> cuts the query at every space
  character (and at no other white space), and returns true if and only if one of the
  pieces starts with \<open>org:\<close> or \<open>repo:\<close>; equivalently, if and only if \<open>org:\<close> or
  \<open>repo:\<close> stands at the start of the query or directly after a space. It is true for
  \<open>repo:"a/b" is:pr\<close> and false for \<open>is:pr author:x\<close>. The query is a value: the
  predicate has nothing to mutate.
\<close>

theorem queryConstrainsRepos_space_tokens:
  "(queryConstrainsRepos q \<longleftrightarrow>
      (\<exists>t\<in>set (Split q CHR '' ''). HasPrefix t ''org:'' \<or> HasPrefix t ''repo:''))
   \<and> (queryConstrainsRepos q \<longleftrightarrow>
      (\<exists>suf. q = ''org:'' @ suf) \<or> (\<exists>suf. q = ''repo:'' @ suf) \<or>
      (\<exists>pre suf. q = pre @ '' org:'' @ suf) \<or> (\<exists>pre suf. q = pre @ '' repo:'' @ suf))
   \<and> queryConstrainsRepos (''repo:'' @ [CHR 0x22] @ ''a/b'' @ [CHR 0x22] @ '' is:pr'')
   \<and> \<not> queryConstrainsRepos ''is:pr author:x''"
proof (intro conjI)
  show "queryConstrainsRepos q \<longleftrightarrow>
      (\<exists>t\<in>set (Split q CHR '' ''). HasPrefix t ''org:'' \<or> HasPrefix t ''repo:'')"
    by (simp add: queryConstrainsRepos_def anyScopeToken_iff)
  show "queryConstrainsRepos q \<longleftrightarrow>
      (\<exists>suf. q = ''org:'' @ suf) \<or> (\<exists>suf. q = ''repo:'' @ suf) \<or>
      (\<exists>pre suf. q = pre @ '' org:'' @ suf) \<or> (\<exists>pre suf. q = pre @ '' repo:'' @ suf)"
    by (rule queryConstrainsRepos_iff_positions)
  show "queryConstrainsRepos (''repo:'' @ [CHR 0x22] @ ''a/b'' @ [CHR 0x22] @ '' is:pr'')"
    by (simp add: queryConstrainsRepos_def HasPrefix_def)
  show "\<not> queryConstrainsRepos ''is:pr author:x''"
    by (simp add: queryConstrainsRepos_def HasPrefix_def)
qed

theorem queryConstrainsRepos_space_tokens_witness:
  "queryConstrainsRepos ''is:pr org:kubernetes''
   \<and> ''org:kubernetes'' \<in> set (Split ''is:pr org:kubernetes'' CHR '' '')
   \<and> HasPrefix ''org:kubernetes'' ''org:''"
proof -
  have mem: "''org:kubernetes'' \<in> set (Split ''is:pr org:kubernetes'' CHR '' '')"
    by simp
  have pre: "HasPrefix ''org:kubernetes'' ''org:''"
    by (simp add: HasPrefix_def)
  from mem pre have "\<exists>t\<in>set (Split ''is:pr org:kubernetes'' CHR '' '').
      HasPrefix t ''org:'' \<or> HasPrefix t ''repo:''"
    by blast
  with queryConstrainsRepos_space_tokens [of "''is:pr org:kubernetes''"]
  have "queryConstrainsRepos ''is:pr org:kubernetes''"
    by blast
  with mem pre show ?thesis by blast
qed

text \<open>
  C2, as the specification words it, fails. A query whose tokens are separated by a tab
  has, tokenized on white space, the token \<open>repo:a/b\<close>; the code sees the single piece
  \<open>is:pr<TAB>repo:a/b\<close>, which starts with neither prefix, and answers false.
\<close>

theorem queryConstrainsRepos_whitespace_counterexample:
  "\<not> (queryConstrainsRepos (''is:pr'' @ [CHR 0x09] @ ''repo:a/b'') \<longleftrightarrow>
      spec_hasExplicitScope (''is:pr'' @ [CHR 0x09] @ ''repo:a/b''))"
  by (simp add: queryConstrainsRepos_def spec_hasExplicitScope_def HasPrefix_def isSpace_def)

section \<open>Properties of the paginator\<close>

lemma foldl_prs: "foldl (\<lambda>prs n. prs @ [PullRequest n]) prs ns = prs @ map PullRequest ns"
  by (induction ns arbitrary: prs) simp_all

lemma loop_error:
  "ghc st vars = (Inl e, st') \<Longrightarrow>
   QueryPullRequests_loop ghc vars st prs tc rm = Some (Inl e, st')"
  by (subst QueryPullRequests_loop.simps) simp

lemma loop_last:
  "ghc st vars = (Inr p, st') \<Longrightarrow> \<not> HasNextPage (PageInfo (Search p)) \<Longrightarrow>
   QueryPullRequests_loop ghc vars st prs tc rm =
     Some (Inr (prs @ map PullRequest (Nodes (Search p)), tc + scast (Cost (RateLimit p)),
                scast (Remaining (RateLimit p))), st')"
  by (subst QueryPullRequests_loop.simps) (simp add: foldl_prs)

lemma loop_next:
  "ghc st vars = (Inr p, st') \<Longrightarrow> HasNextPage (PageInfo (Search p)) \<Longrightarrow>
   QueryPullRequests_loop ghc vars st prs tc rm =
     QueryPullRequests_loop ghc (vars\<lparr>var_searchCursor := Some (EndCursor (PageInfo (Search p)))\<rparr>)
       st' (prs @ map PullRequest (Nodes (Search p))) (tc + scast (Cost (RateLimit p))) (scast (Remaining (RateLimit p)))"
  by (subst QueryPullRequests_loop.simps) (simp add: foldl_prs)

lemma loop_pages_served:
  "pages_served ghc q st cur pages st' \<Longrightarrow>
   QueryPullRequests_loop ghc \<lparr>var_query = q, var_searchCursor = cur\<rparr> st prs tc rm =
     Some (Inr (prs @ concat (map (\<lambda>p. map PullRequest (Nodes (Search p))) pages),
                tc + sum_list (map (\<lambda>p. scast (Cost (RateLimit p))) pages),
                scast (Remaining (RateLimit (last pages)))), st')"
proof (induction ghc q st cur pages st' arbitrary: prs tc rm rule: pages_served.induct)
  case (1 ghc q st cur st')
  then show ?case by simp
next
  case (2 ghc q st cur p st')
  then show ?case by (simp add: loop_last)
next
  case (3 ghc q st cur p p' ps st')
  let ?v = "\<lparr>var_query = q, var_searchCursor = cur\<rparr>"
  from "3.prems" have r: "ghc st ?v = (Inr p, snd (ghc st ?v))"
    and more: "HasNextPage (PageInfo (Search p))"
    and rest: "pages_served ghc q (snd (ghc st ?v)) (Some (EndCursor (PageInfo (Search p))))
                 (p' # ps) st'"
    by (simp_all add: prod_eq_iff)
  show ?case
    unfolding loop_next [where ghc = ghc and st = st and vars = "?v", OF r more]
    using "3.IH" [OF rest] by (simp add: add.assoc)
qed

lemma loop_page_fails:
  "page_fails ghc q st cur pages e st' \<Longrightarrow>
   QueryPullRequests_loop ghc \<lparr>var_query = q, var_searchCursor = cur\<rparr> st prs tc rm = Some (Inl e, st')"
proof (induction pages arbitrary: st cur prs tc rm)
  case Nil
  then show ?case by (simp add: loop_error)
next
  case (Cons p ps)
  let ?v = "\<lparr>var_query = q, var_searchCursor = cur\<rparr>"
  from Cons.prems have r: "ghc st ?v = (Inr p, snd (ghc st ?v))"
    and more: "HasNextPage (PageInfo (Search p))"
    and rest: "page_fails ghc q (snd (ghc st ?v)) (Some (EndCursor (PageInfo (Search p))))
                 ps e st'"
    by (simp_all add: prod_eq_iff)
  show ?case
    unfolding loop_next [where ghc = ghc and st = st and vars = "?v", OF r more]
    using Cons.IH [OF rest] by simp
qed


lemma sint_bounds32: "- (2 ^ 31) \<le> sint (c :: 32 word) \<and> sint c \<le> 2 ^ 31 - 1"
  using sint_ge [of c] sint_lt [of c] by simp

lemma sint_scast_32_64: "sint (scast (c :: 32 word) :: 64 word) = sint c"
  by (rule sint_up_scast) (simp add: is_up)

lemma sint_sum_costs:
  "length cs \<le> 2 ^ 32 \<Longrightarrow>
   sint (sum_list (map scast cs) :: 64 word) = sum_list (map sint (cs :: 32 word list)) \<and>
   - (int (length cs) * 2 ^ 31) \<le> sum_list (map sint cs) \<and>
   sum_list (map sint cs) \<le> int (length cs) * (2 ^ 31 - 1)"
proof (induction cs)
  case Nil
  then show ?case by simp
next
  case (Cons c cs)
  then have len: "int (length cs) + 1 \<le> 2 ^ 32" by simp
  from Cons have IH: "sint (sum_list (map scast cs) :: 64 word) = sum_list (map sint cs)"
    and lo: "- (int (length cs) * 2 ^ 31) \<le> sum_list (map sint cs)"
    and hi: "sum_list (map sint cs) \<le> int (length cs) * (2 ^ 31 - 1)"
    by simp_all
  let ?S = "sum_list (map sint cs)"
  have c: "- (2 ^ 31) \<le> sint c" "sint c \<le> 2 ^ 31 - 1"
    using sint_bounds32 [of c] by simp_all
  have lo': "- ((int (length cs) + 1) * 2 ^ 31) \<le> sint c + ?S"
    using lo c by (simp add: algebra_simps)
  have hi': "sint c + ?S \<le> (int (length cs) + 1) * (2 ^ 31 - 1)"
    using hi c by (simp add: algebra_simps)
  have "(int (length cs) + 1) * 2 ^ 31 \<le> 2 ^ 32 * (2 ^ 31 :: int)"
    using len by (intro mult_right_mono) simp_all
  then have b1: "- (2 ^ 63) \<le> sint c + ?S" using lo' by simp
  have "(int (length cs) + 1) * (2 ^ 31 - 1) \<le> 2 ^ 32 * (2 ^ 31 - 1 :: int)"
    using len by (intro mult_right_mono) simp_all
  then have b2: "sint c + ?S < 2 ^ 63" using hi' by simp
  have "sint (scast c + sum_list (map scast cs) :: 64 word) =
        signed_take_bit 63 (sint c + ?S)"
    by (simp add: sint_word_add sint_scast_32_64 IH)
  also have "\<dots> = sint c + ?S"
    using b1 b2 by (rule signed_take_bit_int_eq_self)
  finally show ?case using lo' hi' by (simp add: algebra_simps)
qed

text \<open>
  The loop returns only in these two ways: when it returns a result the client has served
  a run of pages ending with one that reports no further page, and when it returns an
  error a request has failed. Against a client that reports a next page for ever it does
  not return.
\<close>

lemma loop_returns_served:
  assumes "QueryPullRequests_loop ghc vs st prs tc rm = Some y"
  shows "case y of
           (Inl e, st') \<Rightarrow>
             (\<exists>pages. page_fails ghc (var_query vs) st (var_searchCursor vs) pages e st')
         | (Inr res, st') \<Rightarrow>
             (\<exists>pages. pages_served ghc (var_query vs) st (var_searchCursor vs) pages st')"
proof (rule QueryPullRequests_loop.raw_induct
    [where P = "\<lambda>ghc vs st prs tc rm y. case y of
           (Inl e, st') \<Rightarrow>
             (\<exists>pages. page_fails ghc (var_query vs) st (var_searchCursor vs) pages e st')
         | (Inr res, st') \<Rightarrow>
             (\<exists>pages. pages_served ghc (var_query vs) st (var_searchCursor vs) pages st')",
     OF _ assms], goal_cases)
  case (1 loop ghc vs st prs tc rm y)
  obtain a st1 where g: "ghc st vs = (a, st1)" by (cases "ghc st vs")
  have vs: "\<lparr>var_query = var_query vs, var_searchCursor = var_searchCursor vs\<rparr> = vs"
    by simp
  show ?case
  proof (cases a)
    case (Inl e)
    with 1(2) g have y: "y = (Inl e, st1)" by simp
    have "page_fails ghc (var_query vs) st (var_searchCursor vs) [] e st1"
      using g Inl by (simp add: vs)
    then have "\<exists>pages. page_fails ghc (var_query vs) st (var_searchCursor vs) pages e st1" ..
    with y show ?thesis by simp
  next
    case (Inr p)
    show ?thesis
    proof (cases "HasNextPage (PageInfo (Search p))")
      case False
      with 1(2) g Inr obtain res where y: "y = (Inr res, st1)" by (auto simp: Let_def)
      have "pages_served ghc (var_query vs) st (var_searchCursor vs) [p] st1"
        using g Inr False by (simp add: vs)
      then have "\<exists>pages. pages_served ghc (var_query vs) st (var_searchCursor vs) pages st1" ..
      with y show ?thesis by simp
    next
      case True
      let ?vs' = "vs\<lparr>var_searchCursor := Some (EndCursor (PageInfo (Search p)))\<rparr>"
      from 1(2) g Inr True obtain prs' tc' rm' where
        rec: "loop ghc ?vs' st1 prs' tc' rm' = Some y"
        by (auto simp: Let_def)
      note ih = 1(1) [OF rec]
      obtain r st' where y: "y = (r, st')" by (cases y)
      show ?thesis
      proof (cases r)
        case (Inl e)
        with ih y obtain pages where
          "page_fails ghc (var_query vs) st1 (Some (EndCursor (PageInfo (Search p)))) pages e st'"
          by auto
        then have "page_fails ghc (var_query vs) st (var_searchCursor vs) (p # pages) e st'"
          using g \<open>a = Inr p\<close> True by (simp add: vs)
        then have "\<exists>pages. page_fails ghc (var_query vs) st (var_searchCursor vs) pages e st'" ..
        with y Inl show ?thesis by simp
      next
        case (Inr res)
        with ih y obtain pages where ps:
          "pages_served ghc (var_query vs) st1 (Some (EndCursor (PageInfo (Search p)))) pages st'"
          by auto
        then obtain p' ps' where "pages = p' # ps'" by (cases pages) auto
        with ps have "pages_served ghc (var_query vs) st (var_searchCursor vs) (p # pages) st'"
          using g \<open>a = Inr p\<close> True by (simp add: vs)
        then have "\<exists>pages. pages_served ghc (var_query vs) st (var_searchCursor vs) pages st'" ..
        with y Inr show ?thesis by simp
      qed
    qed
  qed
qed

lemma never_served:
  assumes "\<And>st vs. \<exists>p st'. ghc st vs = (Inr p, st') \<and> HasNextPage (PageInfo (Search p))"
  shows "\<not> pages_served ghc q st cur pages st'" and "\<not> page_fails ghc q st cur pages e st'"
proof -
  show "\<not> pages_served ghc q st cur pages st'"
  proof (induction pages arbitrary: st cur)
    case Nil
    show ?case by simp
  next
    case (Cons p ps)
    show ?case
    proof (cases ps)
      case Nil
      from assms [of st "\<lparr>var_query = q, var_searchCursor = cur\<rparr>"] Nil
      show ?thesis by auto
    next
      case (Cons p' ps')
      with Cons.IH show ?thesis by simp
    qed
  qed
  show "\<not> page_fails ghc q st cur pages e st'"
  proof (induction pages arbitrary: st cur)
    case Nil
    from assms [of st "\<lparr>var_query = q, var_searchCursor = cur\<rparr>"] show ?case by auto
  next
    case (Cons p ps)
    then show ?case by simp
  qed
qed

lemma loop_never_ending:
  assumes "\<And>st vs. \<exists>p st'. ghc st vs = (Inr p, st') \<and> HasNextPage (PageInfo (Search p))"
  shows "QueryPullRequests_loop ghc vs st prs tc rm = None"
proof (cases "QueryPullRequests_loop ghc vs st prs tc rm")
  case None
  then show ?thesis .
next
  case (Some y)
  from loop_returns_served [OF Some] never_served [OF assms]
  show ?thesis by (auto split: prod.splits sum.splits)
qed

lemma three_pages_served:
  "pages_served three_pages ''is:pr'' 0 None
     [page 1 4999 True ''c1'' [1, 2], page 1 4998 True ''c2'' [3, 4],
      page 2 4996 False ''c3'' [5]] 3"
  by (simp add: three_pages_def page_def numeral_3_eq_3)


text \<open>
  C3. When the client answers the successive requests (the first without a cursor, each
  later one with the end cursor of the page before it) with pages of which only the last
  reports no further page, \<open>QueryPullRequests\<close> returns, without an error, the pull
  requests of all the pages in the order served, and stops with that last page: the
  client is left in the state after the last page's request. The one record it logs
  carries the query, the sum of the pages' costs and the remaining quota of the last page
  alone. The sum is Go's: of 64-bit integers, which is the sum of the numbers as long as
  there are no more than \<open>2 ^ 32\<close> pages.
\<close>

theorem QueryPullRequests_all_pages:
  assumes served: "pages_served ghc q st None pages st'"
  shows "QueryPullRequests ghc st q =
           Some \<lparr>returned_prs = concat (map (\<lambda>p. map PullRequest (Nodes (Search p))) pages),
                 returned_err = None,
                 log_Infof = [(q, sum_list (map (\<lambda>p. scast (Cost (RateLimit p))) pages),
                               scast (Remaining (RateLimit (last pages))))],
                 client_after = st'\<rparr>
         \<and> (length pages \<le> 2 ^ 32 \<longrightarrow>
              sint (sum_list (map (\<lambda>p. scast (Cost (RateLimit p))) pages) :: 64 word) =
              sum_list (map (\<lambda>p. sint (Cost (RateLimit p))) pages))
         \<and> sint (scast (Remaining (RateLimit (last pages))) :: 64 word) =
              sint (Remaining (RateLimit (last pages)))"
proof (intro conjI impI)
  show "QueryPullRequests ghc st q =
           Some \<lparr>returned_prs = concat (map (\<lambda>p. map PullRequest (Nodes (Search p))) pages),
                 returned_err = None,
                 log_Infof = [(q, sum_list (map (\<lambda>p. scast (Cost (RateLimit p))) pages),
                               scast (Remaining (RateLimit (last pages))))],
                 client_after = st'\<rparr>"
    unfolding QueryPullRequests_def
    by (simp add: loop_pages_served [OF served])
next
  assume len: "length pages \<le> 2 ^ 32"
  have "length (map (\<lambda>p. Cost (RateLimit p)) pages) \<le> 2 ^ 32"
    using len by simp
  from sint_sum_costs [OF this]
  show "sint (sum_list (map (\<lambda>p. scast (Cost (RateLimit p))) pages) :: 64 word) =
        sum_list (map (\<lambda>p. sint (Cost (RateLimit p))) pages)"
    by (simp add: comp_def)
next
  show "sint (scast (Remaining (RateLimit (last pages))) :: 64 word) =
        sint (Remaining (RateLimit (last pages)))"
    by (rule sint_scast_32_64)
qed

theorem QueryPullRequests_all_pages_witness:
  "pages_served three_pages ''is:pr'' 0 None
     [page 1 4999 True ''c1'' [1, 2], page 1 4998 True ''c2'' [3, 4],
      page 2 4996 False ''c3'' [5]] 3
   \<and> QueryPullRequests three_pages 0 ''is:pr'' =
       Some \<lparr>returned_prs = [pr 1, pr 2, pr 3, pr 4, pr 5], returned_err = None,
             log_Infof = [(''is:pr'', 4, 4996)], client_after = 3\<rparr>
   \<and> length [page 1 4999 True ''c1'' [1, 2], page 1 4998 True ''c2'' [3, 4],
      page 2 4996 False ''c3'' [5]] \<le> 2 ^ 32
   \<and> sint (sum_list (map (\<lambda>p. scast (Cost (RateLimit p)))
        [page 1 4999 True ''c1'' [1, 2], page 1 4998 True ''c2'' [3, 4],
         page 2 4996 False ''c3'' [5]]) :: 64 word) = 4"
proof -
  note h = three_pages_served
  from QueryPullRequests_all_pages [OF h]
  show ?thesis using h by (simp add: page_def)
qed


text \<open>
  C4. When a page request fails, after any number of pages that each reported a next
  page, \<open>QueryPullRequests\<close> returns that error and no pull request at all, logs
  nothing, and asks the client nothing more: the client is left in the state after the
  failed request.
\<close>

theorem QueryPullRequests_page_error:
  assumes failed: "page_fails ghc q st None pages e st'"
  shows "QueryPullRequests ghc st q =
           Some \<lparr>returned_prs = [], returned_err = Some e, log_Infof = [],
                 client_after = st'\<rparr>"
  unfolding QueryPullRequests_def
  by (simp add: loop_page_fails [OF failed])

theorem QueryPullRequests_page_error_witness:
  "page_fails fails_on_page_2 ''is:pr'' 0 None [page 1 4999 True ''c1'' [1, 2]]
     transport_error 2
   \<and> QueryPullRequests fails_on_page_2 0 ''is:pr'' =
       Some \<lparr>returned_prs = [], returned_err = Some transport_error, log_Infof = [],
             client_after = 2\<rparr>"
proof -
  have h: "page_fails fails_on_page_2 ''is:pr'' 0 None [page 1 4999 True ''c1'' [1, 2]]
     transport_error 2"
    by (simp add: fails_on_page_2_def page_def numeral_2_eq_2)
  from QueryPullRequests_page_error [OF h] h show ?thesis by simp
qed

section \<open>Properties of the request handler\<close>

lemma body_of_append: "body_of (a @ b) = body_of a @ body_of b"
  by (induction a rule: body_of.induct) simp_all

lemma http_errors_append: "http_errors (a @ b) = http_errors a @ http_errors b"
  by (induction a rule: http_errors.induct) simp_all

lemma cookies_set_append: "cookies_set (a @ b) = cookies_set a @ cookies_set b"
  by (induction a rule: cookies_set.induct) simp_all

lemma sessions_saved_append: "sessions_saved (a @ b) = sessions_saved a @ sessions_saved b"
  by (induction a rule: sessions_saved.induct) simp_all

lemma marshalled_append: "marshalled (a @ b) = marshalled a @ marshalled b"
  by (induction a rule: marshalled.induct) simp_all

lemma queries_issued_append: "queries_issued (a @ b) = queries_issued a @ queries_issued b"
  by (induction a rule: queries_issued.induct) simp_all

lemmas trace_append =
  body_of_append http_errors_append cookies_set_append sessions_saved_append
  marshalled_append queries_issued_append

lemma serverError_reads:
  "body_of (serverError a e) = ''500 Internal server error '' @ a @ '': '' @ Error e @ [CHR 0x0A]"
  "http_errors (serverError a e) = [500]"
  "cookies_set (serverError a e) = []"
  "sessions_saved (serverError a e) = []"
  "marshalled (serverError a e) = []"
  "queries_issued (serverError a e) = []"
  by (simp_all add: serverError_def StatusInternalServerError_def)

lemma validate_Continue:
  assumes "HandlePrStatus_validate w s token ok = Continue tr x"
  shows "body_of tr = [] \<and> http_errors tr = [] \<and> marshalled tr = [] \<and> queries_issued tr = []"
  using assms unfolding HandlePrStatus_validate_def Let_def
  by (auto split: option.splits if_splits prod.splits)

lemma validate_Return:
  assumes "HandlePrStatus_validate w s token ok = Return tr"
  shows "marshalled tr = [] \<and> http_errors tr = [500] \<and> cookies_set tr = [] \<and> queries_issued tr = []"
  using assms unfolding HandlePrStatus_validate_def Let_def
  by (auto simp: serverError_reads trace_append split: option.splits if_splits prod.splits)

lemma login_Continue:
  assumes "HandlePrStatus_login da qh w r s token user = Continue tr data"
  shows "body_of tr = [] \<and> http_errors tr = [] \<and> marshalled tr = [] \<and>
         (\<not> Login data \<longrightarrow> PullRequests data = [])"
  using assms unfolding HandlePrStatus_login_def Let_def
  by (auto split: option.splits if_splits prod.splits)

lemma login_Return:
  assumes "HandlePrStatus_login da qh w r s token user = Return tr"
  shows "marshalled tr = []"
  using assms unfolding HandlePrStatus_login_def Let_def
  by (auto simp: serverError_reads trace_append split: option.splits if_splits prod.splits)

lemma respond_reads:
  "marshalled (HandlePrStatus_respond w r data) = [data]"
  "http_errors (HandlePrStatus_respond w r data) = []"
  "cookies_set (HandlePrStatus_respond w r data) = []"
  "sessions_saved (HandlePrStatus_respond w r data) = []"
  "queries_issued (HandlePrStatus_respond w r data) = []"
  unfolding HandlePrStatus_respond_def Let_def
  by (auto split: sum.splits)

lemma respond_body_ok:
  "json_Marshal w data = Inr js \<Longrightarrow>
   body_of (HandlePrStatus_respond w r data) =
     (if Values_Get (URL_Query r) ''var'' \<noteq> []
      then ''var '' @ Values_Get (URL_Query r) ''var'' @ '' = '' @ js @ '';''
      else js)"
  unfolding HandlePrStatus_respond_def Let_def by simp

lemma respond_body_failed:
  "json_Marshal w data = Inl err \<Longrightarrow>
   body_of (HandlePrStatus_respond w r data) =
     (if Values_Get (URL_Query r) ''var'' \<noteq> []
      then ''var '' @ Values_Get (URL_Query r) ''var'' @ '' = ;''
      else [])"
  unfolding HandlePrStatus_respond_def Let_def by simp

lemma HandlePrStatus_cases:
  "(marshalled (HandlePrStatus da qh w r) = []) \<or>
   (\<exists>tr data. HandlePrStatus da qh w r = tr @ HandlePrStatus_respond w r data \<and>
      body_of tr = [] \<and> http_errors tr = [] \<and> marshalled tr = [] \<and>
      (\<not> Login data \<longrightarrow> PullRequests data = []))"
proof (cases "CookieStore_Get w")
  case (Pair session err)
  show ?thesis
  proof (cases err)
    case (Some e)
    with Pair show ?thesis
      by (simp add: HandlePrStatus_def serverError_reads)
  next
    case None
    obtain token ok where tok:
      "(case Values session tokenKey of Some (TokenValue t) \<Rightarrow> (t, True) | _ \<Rightarrow> (None, False))
        = (token, ok)"
      by (cases "case Values session tokenKey of Some (TokenValue t) \<Rightarrow> (t, True) | _ \<Rightarrow> (None, False)") 
    show ?thesis
    proof (cases "HandlePrStatus_validate w session token ok")
      case (Return tr)
      with Pair None tok validate_Return [OF Return] show ?thesis
        by (simp add: HandlePrStatus_def)
    next
      case (Continue tr x)
      obtain user session' where x: "x = (user, session')" by (cases x)
      note v = validate_Continue [OF Continue]
      show ?thesis
      proof (cases "HandlePrStatus_login da qh w r session' token user")
        case (Return tr')
        with Pair None tok Continue x v login_Return [OF Return] show ?thesis
          by (simp add: HandlePrStatus_def trace_append)
      next
        case (Continue tr' data)
        note l = login_Continue [OF Continue]
        have "HandlePrStatus da qh w r = (tr @ tr') @ HandlePrStatus_respond w r data"
          using Pair None tok \<open>HandlePrStatus_validate w session token ok = step.Continue tr x\<close>
            x Continue
          by (simp add: HandlePrStatus_def)
        moreover have "body_of (tr @ tr') = [] \<and> http_errors (tr @ tr') = [] \<and>
            marshalled (tr @ tr') = []"
          using v l by (simp add: trace_append)
        ultimately show ?thesis using l by blast
      qed
    qed
  qed
qed

lemma login_Return_how:
  assumes "HandlePrStatus_login da qh w r s token user = Return tr"
  shows "http_errors tr = [500] \<or> (tr \<noteq> [] \<and> last tr = Ev_Panic)"
  using assms unfolding HandlePrStatus_login_def Let_def
  by (auto simp: serverError_reads trace_append split: option.splits if_splits prod.splits)

lemma HandlePrStatus_outcome:
  "(marshalled (HandlePrStatus da qh w r) = [] \<and>
      (http_errors (HandlePrStatus da qh w r) = [500] \<or>
       (HandlePrStatus da qh w r \<noteq> [] \<and> last (HandlePrStatus da qh w r) = Ev_Panic))) \<or>
   (\<exists>tr data. HandlePrStatus da qh w r = tr @ HandlePrStatus_respond w r data \<and>
      body_of tr = [] \<and> http_errors tr = [] \<and> marshalled tr = [])"
proof (cases "CookieStore_Get w")
  case (Pair session err)
  show ?thesis
  proof (cases err)
    case (Some e)
    with Pair show ?thesis
      by (simp add: HandlePrStatus_def serverError_reads)
  next
    case None
    obtain token ok where tok:
      "(case Values session tokenKey of Some (TokenValue t) \<Rightarrow> (t, True) | _ \<Rightarrow> (None, False))
        = (token, ok)"
      by (cases "case Values session tokenKey of Some (TokenValue t) \<Rightarrow> (t, True) | _ \<Rightarrow> (None, False)")
    show ?thesis
    proof (cases "HandlePrStatus_validate w session token ok")
      case (Return tr)
      with Pair None tok validate_Return [OF Return] show ?thesis
        by (simp add: HandlePrStatus_def)
    next
      case (Continue tr x)
      obtain user session' where x: "x = (user, session')" by (cases x)
      note v = validate_Continue [OF Continue]
      show ?thesis
      proof (cases "HandlePrStatus_login da qh w r session' token user")
        case (Return tr')
        have H: "HandlePrStatus da qh w r = tr @ tr'"
          using Pair None tok Continue x Return by (simp add: HandlePrStatus_def)
        from login_Return_how [OF Return]
        have "http_errors (tr @ tr') = [500] \<or> (tr @ tr' \<noteq> [] \<and> last (tr @ tr') = Ev_Panic)"
          using v by (auto simp: trace_append)
        moreover have "marshalled (tr @ tr') = []"
          using v login_Return [OF Return] by (simp add: trace_append)
        ultimately show ?thesis unfolding H by blast
      next
        case (Continue tr' data)
        note l = login_Continue [OF Continue]
        have "HandlePrStatus da qh w r = (tr @ tr') @ HandlePrStatus_respond w r data"
          using Pair None tok \<open>HandlePrStatus_validate w session token ok = step.Continue tr x\<close>
            x Continue
          by (simp add: HandlePrStatus_def)
        moreover have "body_of (tr @ tr') = [] \<and> http_errors (tr @ tr') = [] \<and>
            marshalled (tr @ tr') = []"
          using v l by (simp add: trace_append)
        ultimately show ?thesis by blast
      qed
    qed
  qed
qed

lemma logged_in_trace:
  assumes "CookieStore_Get w = (s, None)"
      and "Values s tokenKey = Some (TokenValue (Some t))"
      and "token_Valid w t"
      and "GetUser w (AccessToken t) = (Some u, None)"
      and "User_Login u = Some login"
      and "session_Save w (s\<lparr>Values := (Values s)(loginKey \<mapsto> StringValue login)\<rparr>) = None"
      and "qh (AccessToken t) (HandlePrStatus_query da r login) = (prs, None)"
  shows "HandlePrStatus da qh w r =
           [Ev_GetUser (AccessToken t),
            Ev_SetCookie \<lparr>Cookie_Name = ''github_login'', Cookie_Value = login,
                           Cookie_Path = ''/'', Cookie_Expires = now w + 2592000,
                           Cookie_MaxAge = 0, Cookie_Secure = True\<rparr>,
            Ev_Save (s\<lparr>Values := (Values s)(loginKey \<mapsto> StringValue login)\<rparr>) None,
            Ev_Query (AccessToken t) (HandlePrStatus_query da r login)]
           @ HandlePrStatus_respond w r \<lparr>Login = True, PullRequests = prs\<rparr>"
  using assms
  by (simp add: HandlePrStatus_def HandlePrStatus_validate_def HandlePrStatus_login_def
      Let_def loginSession_def Hour_def)

lemma no_credential_trace:
  assumes "CookieStore_Get w = (s, None)"
      and "\<And>t. Values s tokenKey = Some (TokenValue (Some t)) \<Longrightarrow> \<not> token_Valid w t"
  shows "HandlePrStatus da qh w r =
           HandlePrStatus_respond w r \<lparr>Login = False, PullRequests = []\<rparr>"
  using assms
  by (auto simp: HandlePrStatus_def HandlePrStatus_validate_def HandlePrStatus_login_def
      Let_def split: option.splits session_value.splits)

lemmas handler_defs =
  HandlePrStatus_def HandlePrStatus_validate_def HandlePrStatus_login_def

lemma Contains_bad_credentials: "Contains (Error bad_credentials) ''401''"
  by (simp add: bad_credentials_def HasPrefix_def)

lemma Contains_connection_reset: "Contains (Error connection_reset) ''401''"
  by (simp add: connection_reset_def HasPrefix_def)

lemma not_Contains_bad_gateway: "\<not> Contains (Error bad_gateway) ''401''"
  by (simp add: bad_gateway_def HasPrefix_def)

lemma validate_without_rejection:
  assumes "\<not> (\<exists>t user e. ok \<and> token = Some t \<and> token_Valid w t \<and>
              GetUser w (AccessToken t) = (user, Some e) \<and> Contains (Error e) ''401'')"
  shows "case HandlePrStatus_validate w s token ok of
           Return tr \<Rightarrow> cookies_set tr = [] \<and> sessions_saved tr = []
         | Continue tr x \<Rightarrow> cookies_set tr = [] \<and> sessions_saved tr = [] \<and> snd x = s"
  using assms unfolding HandlePrStatus_validate_def Let_def
  by (auto simp: serverError_reads trace_append split: option.splits prod.splits)

lemma login_effects:
  "case HandlePrStatus_login da qh w r s token user of
     Return tr \<Rightarrow>
       (\<forall>c\<in>set (cookies_set tr). Cookie_MaxAge c = 0 \<and> Cookie_Expires c = now w + 2592000) \<and>
       (\<forall>p\<in>set (sessions_saved tr). Options_MaxAge (fst p) = Options_MaxAge s)
   | Continue tr d \<Rightarrow>
       (\<forall>c\<in>set (cookies_set tr). Cookie_MaxAge c = 0 \<and> Cookie_Expires c = now w + 2592000) \<and>
       (\<forall>p\<in>set (sessions_saved tr). Options_MaxAge (fst p) = Options_MaxAge s)"
  unfolding HandlePrStatus_login_def Let_def
  by (auto simp: serverError_reads trace_append Hour_def split: option.splits prod.splits)

lemma token_of_session:
  "(case Values s tokenKey of Some (TokenValue t) \<Rightarrow> (t, True) | _ \<Rightarrow> (None, False)) = (token, ok)
   \<Longrightarrow> ok \<and> token = Some t \<longleftrightarrow> Values s tokenKey = Some (TokenValue (Some t))"
  by (auto split: option.splits session_value.splits)

lemma HandlePrStatus_without_rejection:
  assumes get: "CookieStore_Get w = (s, None)"
      and nrej: "\<not> (\<exists>t user e. Values s tokenKey = Some (TokenValue (Some t)) \<and> token_Valid w t \<and>
              GetUser w (AccessToken t) = (user, Some e) \<and> Contains (Error e) ''401'')"
  shows "(\<forall>c\<in>set (cookies_set (HandlePrStatus da qh w r)). Cookie_MaxAge c = 0 \<and> Cookie_Expires c = now w + 2592000) \<and>
         (\<forall>p\<in>set (sessions_saved (HandlePrStatus da qh w r)).
            Options_MaxAge (fst p) = Options_MaxAge s)"
proof -
  obtain token ok where tok:
    "(case Values s tokenKey of Some (TokenValue t) \<Rightarrow> (t, True) | _ \<Rightarrow> (None, False))
      = (token, ok)"
    by (cases "case Values s tokenKey of Some (TokenValue t) \<Rightarrow> (t, True) | _ \<Rightarrow> (None, False)")
  have nrej': "\<not> (\<exists>t user e. ok \<and> token = Some t \<and> token_Valid w t \<and>
              GetUser w (AccessToken t) = (user, Some e) \<and> Contains (Error e) ''401'')"
    using nrej token_of_session [OF tok] by blast
  note v = validate_without_rejection [OF nrej', where s = s]
  show ?thesis
  proof (cases "HandlePrStatus_validate w s token ok")
    case (Return tr)
    with v get tok show ?thesis by (simp add: HandlePrStatus_def)
  next
    case (Continue tr x)
    with v obtain u where x: "x = (u, s)" and tr: "cookies_set tr = []" "sessions_saved tr = []"
      by (cases x) simp
    note l = login_effects [where da = da and qh = qh and w = w and r = r and s = s and token = token and user = u]
    show ?thesis
    proof (cases "HandlePrStatus_login da qh w r s token u")
      case (Return tr')
      have "HandlePrStatus da qh w r = tr @ tr'"
        using get tok Continue Return x
        by (simp add: HandlePrStatus_def)
      with l Return tr show ?thesis by (simp add: trace_append)
    next
      case (Continue tr' d)
      have "HandlePrStatus da qh w r = tr @ tr' @ HandlePrStatus_respond w r d"
        using get tok \<open>HandlePrStatus_validate w s token ok = step.Continue tr x\<close> Continue x
        by (simp add: HandlePrStatus_def)
      with l Continue tr show ?thesis by (simp add: trace_append respond_reads)
    qed
  qed
qed

lemma foldl_scope:
  "foldl (\<lambda>query v. query @ Sprintf_sp_repo v) q rs = q @ concat (map Sprintf_sp_repo rs)"
  by (induction rs arbitrary: q) simp_all

lemma default_query_scoped:
  assumes "repos da \<noteq> []"
  shows "queryConstrainsRepos (ConstructSearchQuery da login)"
proof -
  from assms obtain v vs where rs: "repos da = v # vs" by (cases "repos da") auto
  have "ConstructSearchQuery da login =
        (''is:pr state:open author:'' @ login) @ '' repo:'' @
        (dquote # v @ [dquote] @ concat (map Sprintf_sp_repo vs))"
    unfolding ConstructSearchQuery_concat rs by (simp add: Sprintf_sp_repo_def)
  then show ?thesis
    by (simp only: queryConstrainsRepos_after_space)
qed

lemma HandlePrStatus_query_eq:
  "HandlePrStatus_query da r login =
     (if ParseForm_err r = None \<and> Values_Get (Form r) ''query'' \<noteq> []
      then (if queryConstrainsRepos (Values_Get (Form r) ''query'')
            then Values_Get (Form r) ''query''
            else Values_Get (Form r) ''query'' @ concat (map Sprintf_sp_repo (repos da)))
      else ConstructSearchQuery da login)"
proof -
  have dflt: "\<not> queryConstrainsRepos (ConstructSearchQuery da login) \<Longrightarrow>
        foldl (\<lambda>query v. query @ Sprintf_sp_repo v) (ConstructSearchQuery da login) (repos da)
        = ConstructSearchQuery da login"
    using default_query_scoped [of da login] by (cases "repos da = []") auto
  show ?thesis
  proof (cases "ParseForm_err r")
    case (Some e)
    then show ?thesis
      unfolding HandlePrStatus_query_def Let_def by (simp add: dflt)
  next
    case None
    show ?thesis
    proof (cases "Values_Get (Form r) ''query'' = []")
      case True
      with None show ?thesis
        unfolding HandlePrStatus_query_def Let_def by (simp add: dflt)
    next
      case False
      with None show ?thesis
        unfolding HandlePrStatus_query_def Let_def by (simp add: foldl_scope)
    qed
  qed
qed

lemma anonymous_trace:
  "HandlePrStatus da qh anonymous_world plain_request =
     [Ev_Marshal \<lparr>Login = False, PullRequests = []\<rparr>, Ev_Write logged_out_json]"
  by (simp add: HandlePrStatus_def HandlePrStatus_validate_def HandlePrStatus_login_def
      HandlePrStatus_respond_def anonymous_world_def plain_request_def empty_session_def
      stub_Marshal_def Values_Get_def)

lemma var_trace:
  "HandlePrStatus da qh anonymous_world var_request =
     [Ev_Marshal \<lparr>Login = False, PullRequests = []\<rparr>,
      Ev_Write ''var data = '', Ev_Write logged_out_json, Ev_Write '';'']"
  by (simp add: HandlePrStatus_def HandlePrStatus_validate_def HandlePrStatus_login_def
      HandlePrStatus_respond_def anonymous_world_def var_request_def empty_session_def
      stub_Marshal_def Values_Get_def)

lemma default_query_two_repos:
  "ConstructSearchQuery two_repos ''alice'' =
     ''is:pr state:open author:alice repo:'' @ [dquote] @ ''o/r1'' @ [dquote] @
     '' repo:'' @ [dquote] @ ''o/r2'' @ [dquote]"
  by (simp add: ConstructSearchQuery_concat two_repos_def Sprintf_sp_repo_def)

lemma failed_marshal_body:
  assumes "marshalled (HandlePrStatus da qh w r) = [data]"
      and "json_Marshal w data = Inl err"
  shows "body_of (HandlePrStatus da qh w r) =
           (if Values_Get (URL_Query r) ''var'' \<noteq> []
            then ''var '' @ Values_Get (URL_Query r) ''var'' @ '' = ;''
            else [])"
proof -
  from HandlePrStatus_cases [of da qh w r] assms(1)
  obtain tr d where t: "HandlePrStatus da qh w r = tr @ HandlePrStatus_respond w r d"
    and tr: "body_of tr = []" "marshalled tr = []"
    by auto
  from t tr assms(1) have "d = data"
    by (simp add: trace_append respond_reads)
  with t tr assms(2) show ?thesis
    by (simp add: trace_append respond_body_failed)
qed

text \<open>
  C5. Take a request whose session holds a valid token, and let the identity call fail
  without a user and with an error whose text contains \<open>401\<close>: the credential is
  rejected. The handler then sets the session's max-age to \<open>-1\<close> and saves it. If the
  save fails it logs, answers with status 500 and stops: no cookie is set. If the save
  succeeds it sets the cookie \<open>github_login\<close> with an expiry one day in the past and
  max-age \<open>-1\<close>, and goes on to serialise and write the logged-out data
  (\<open>Login = false\<close>, no pull requests) without any error status.
\<close>

theorem rejected_credential:
  assumes "CookieStore_Get w = (s, None)"
      and "Values s tokenKey = Some (TokenValue (Some t))"
      and "token_Valid w t"
      and "GetUser w (AccessToken t) = (None, Some e)"
      and "Contains (Error e) ''401''"
  shows "(\<forall>e'. session_Save w (s\<lparr>Options_MaxAge := - 1\<rparr>) = Some e' \<longrightarrow>
            HandlePrStatus da qh w r =
              [Ev_GetUser (AccessToken t),
               Ev_Save (s\<lparr>Options_MaxAge := - 1\<rparr>) (Some e'),
               Ev_LogError ''Error Error with saving invalidated session.'' e',
               Ev_HttpError (''500 Internal server error Error with saving invalidated session: ''
                             @ Error e') 500])
       \<and> (session_Save w (s\<lparr>Options_MaxAge := - 1\<rparr>) = None \<longrightarrow>
            HandlePrStatus da qh w r =
              [Ev_GetUser (AccessToken t),
               Ev_Save (s\<lparr>Options_MaxAge := - 1\<rparr>) None,
               Ev_SetCookie \<lparr>Cookie_Name = ''github_login'', Cookie_Value = [],
                              Cookie_Path = ''/'', Cookie_Expires = now w - 86400,
                              Cookie_MaxAge = - 1, Cookie_Secure = True\<rparr>]
              @ HandlePrStatus_respond w r \<lparr>Login = False, PullRequests = []\<rparr>
            \<and> marshalled (HandlePrStatus da qh w r) = [\<lparr>Login = False, PullRequests = []\<rparr>]
            \<and> http_errors (HandlePrStatus da qh w r) = [])"
proof (intro conjI allI impI)
  fix e' assume "session_Save w (s\<lparr>Options_MaxAge := - 1\<rparr>) = Some e'"
  with assms show "HandlePrStatus da qh w r =
              [Ev_GetUser (AccessToken t),
               Ev_Save (s\<lparr>Options_MaxAge := - 1\<rparr>) (Some e'),
               Ev_LogError ''Error Error with saving invalidated session.'' e',
               Ev_HttpError (''500 Internal server error Error with saving invalidated session: ''
                             @ Error e') 500]"
    by (simp add: handler_defs Let_def serverError_def StatusInternalServerError_def)
next
  assume saved: "session_Save w (s\<lparr>Options_MaxAge := - 1\<rparr>) = None"
  with assms show tr: "HandlePrStatus da qh w r =
              [Ev_GetUser (AccessToken t),
               Ev_Save (s\<lparr>Options_MaxAge := - 1\<rparr>) None,
               Ev_SetCookie \<lparr>Cookie_Name = ''github_login'', Cookie_Value = [],
                              Cookie_Path = ''/'', Cookie_Expires = now w - 86400,
                              Cookie_MaxAge = - 1, Cookie_Secure = True\<rparr>]
              @ HandlePrStatus_respond w r \<lparr>Login = False, PullRequests = []\<rparr>"
    by (simp add: handler_defs Let_def loginSession_def Hour_def)
  show "marshalled (HandlePrStatus da qh w r) = [\<lparr>Login = False, PullRequests = []\<rparr>]"
    unfolding tr by (simp add: trace_append respond_reads)
  show "http_errors (HandlePrStatus da qh w r) = []"
    unfolding tr by (simp add: trace_append respond_reads)
qed

theorem rejected_credential_witness:
  "HandlePrStatus two_repos no_results rejecting_world plain_request =
     [Ev_GetUser ''tok'',
      Ev_Save (token_session\<lparr>Options_MaxAge := - 1\<rparr>) None,
      Ev_SetCookie \<lparr>Cookie_Name = ''github_login'', Cookie_Value = [],
                     Cookie_Path = ''/'', Cookie_Expires = 1699913600,
                     Cookie_MaxAge = - 1, Cookie_Secure = True\<rparr>,
      Ev_Marshal \<lparr>Login = False, PullRequests = []\<rparr>,
      Ev_Write logged_out_json]
   \<and> HandlePrStatus two_repos no_results
        (rejecting_world\<lparr>session_Save := (\<lambda>s. Some store_down)\<rparr>) plain_request =
     [Ev_GetUser ''tok'',
      Ev_Save (token_session\<lparr>Options_MaxAge := - 1\<rparr>) (Some store_down),
      Ev_LogError ''Error Error with saving invalidated session.'' store_down,
      Ev_HttpError (''500 Internal server error Error with saving invalidated session: ''
                    @ ''securecookie: error - caught panic'') 500]"
proof -
  let ?w = "rejecting_world"
  let ?w' = "rejecting_world\<lparr>session_Save := (\<lambda>s. Some store_down)\<rparr>"
  have get: "CookieStore_Get ?w = (token_session, None)"
    "CookieStore_Get ?w' = (token_session, None)"
    by (simp_all add: rejecting_world_def anonymous_world_def)
  have val: "Values token_session tokenKey = Some (TokenValue (Some stored_token))"
    by (simp add: token_session_def)
  have ok: "token_Valid ?w stored_token" "token_Valid ?w' stored_token"
    by (simp_all add: rejecting_world_def anonymous_world_def)
  have usr: "GetUser ?w (AccessToken stored_token) = (None, Some bad_credentials)"
    "GetUser ?w' (AccessToken stored_token) = (None, Some bad_credentials)"
    by (simp_all add: rejecting_world_def anonymous_world_def)
  note rej = Contains_bad_credentials
  have sv: "session_Save ?w (token_session\<lparr>Options_MaxAge := - 1\<rparr>) = None"
    "session_Save ?w' (token_session\<lparr>Options_MaxAge := - 1\<rparr>) = Some store_down"
    by (simp_all add: rejecting_world_def anonymous_world_def)
  have resp: "HandlePrStatus_respond ?w plain_request \<lparr>Login = False, PullRequests = []\<rparr> =
      [Ev_Marshal \<lparr>Login = False, PullRequests = []\<rparr>, Ev_Write logged_out_json]"
    by (simp add: HandlePrStatus_respond_def rejecting_world_def anonymous_world_def
        plain_request_def stub_Marshal_def Values_Get_def)
  have nw: "now ?w = 1700000000"
    by (simp add: rejecting_world_def anonymous_world_def)
  from rejected_credential [OF get(1) val ok(1) usr(1) rej, of two_repos no_results plain_request]
    rejected_credential [OF get(2) val ok(2) usr(2) rej, of two_repos no_results plain_request]
    sv resp nw
  show ?thesis
    by (simp add: stored_token_def store_down_def)
qed

text \<open>
  What the handler does after a failed identity call is decided by the text of the error
  alone. If the text contains \<open>401\<close>, the session is saved with max-age \<open>-1\<close> and, the
  save permitting, the identity cookie is expired. If it does not, the handler logs,
  answers with status 500 and stops, having saved no session and set no cookie. In a
  request without such a failure every cookie set is one of thirty days and max-age 0,
  and every session saved keeps the max-age it was loaded with.
\<close>

lemma validation_failure_by_text:
  assumes get: "CookieStore_Get w = (s, None)"
  shows
   "(\<forall>t user e. Values s tokenKey = Some (TokenValue (Some t)) \<and> token_Valid w t \<and>
        GetUser w (AccessToken t) = (user, Some e) \<longrightarrow>
        (if Contains (Error e) ''401''
         then (case session_Save w (s\<lparr>Options_MaxAge := - 1\<rparr>) of
                 Some e' \<Rightarrow>
                   HandlePrStatus da qh w r =
                     [Ev_GetUser (AccessToken t),
                      Ev_Save (s\<lparr>Options_MaxAge := - 1\<rparr>) (Some e'),
                      Ev_LogError ''Error Error with saving invalidated session.'' e',
                      Ev_HttpError
                        (''500 Internal server error Error with saving invalidated session: ''
                         @ Error e') 500]
               | None \<Rightarrow>
                   (\<exists>rest. HandlePrStatus da qh w r =
                      Ev_GetUser (AccessToken t) #
                      Ev_Save (s\<lparr>Options_MaxAge := - 1\<rparr>) None #
                      Ev_SetCookie \<lparr>Cookie_Name = ''github_login'', Cookie_Value = [],
                                     Cookie_Path = ''/'', Cookie_Expires = now w - 86400,
                                     Cookie_MaxAge = - 1, Cookie_Secure = True\<rparr> # rest))
         else HandlePrStatus da qh w r =
                [Ev_GetUser (AccessToken t),
                 Ev_LogError ''Error Error with getting user login.'' e,
                 Ev_HttpError (''500 Internal server error Error with getting user login: ''
                               @ Error e) 500]))
    \<and> (\<not> (\<exists>t user e. Values s tokenKey = Some (TokenValue (Some t)) \<and> token_Valid w t \<and>
              GetUser w (AccessToken t) = (user, Some e) \<and> Contains (Error e) ''401'') \<longrightarrow>
         (\<forall>c\<in>set (cookies_set (HandlePrStatus da qh w r)). Cookie_MaxAge c = 0 \<and> Cookie_Expires c = now w + 2592000) \<and>
         (\<forall>p\<in>set (sessions_saved (HandlePrStatus da qh w r)).
            Options_MaxAge (fst p) = Options_MaxAge s))"
proof (intro conjI allI impI)
  fix t user e
  assume a: "Values s tokenKey = Some (TokenValue (Some t)) \<and> token_Valid w t \<and>
        GetUser w (AccessToken t) = (user, Some e)"
  show "if Contains (Error e) ''401''
         then (case session_Save w (s\<lparr>Options_MaxAge := - 1\<rparr>) of
                 Some e' \<Rightarrow>
                   HandlePrStatus da qh w r =
                     [Ev_GetUser (AccessToken t),
                      Ev_Save (s\<lparr>Options_MaxAge := - 1\<rparr>) (Some e'),
                      Ev_LogError ''Error Error with saving invalidated session.'' e',
                      Ev_HttpError
                        (''500 Internal server error Error with saving invalidated session: ''
                         @ Error e') 500]
               | None \<Rightarrow>
                   (\<exists>rest. HandlePrStatus da qh w r =
                      Ev_GetUser (AccessToken t) #
                      Ev_Save (s\<lparr>Options_MaxAge := - 1\<rparr>) None #
                      Ev_SetCookie \<lparr>Cookie_Name = ''github_login'', Cookie_Value = [],
                                     Cookie_Path = ''/'', Cookie_Expires = now w - 86400,
                                     Cookie_MaxAge = - 1, Cookie_Secure = True\<rparr> # rest))
         else HandlePrStatus da qh w r =
                [Ev_GetUser (AccessToken t),
                 Ev_LogError ''Error Error with getting user login.'' e,
                 Ev_HttpError (''500 Internal server error Error with getting user login: ''
                               @ Error e) 500]"
  proof (cases "Contains (Error e) ''401''")
    case False
    with a get show ?thesis
      by (simp add: HandlePrStatus_def HandlePrStatus_validate_def Let_def serverError_def
          StatusInternalServerError_def)
  next
    case True
    show ?thesis
    proof (cases "session_Save w (s\<lparr>Options_MaxAge := - 1\<rparr>)")
      case (Some e')
      with True a get show ?thesis
        by (simp add: HandlePrStatus_def HandlePrStatus_validate_def Let_def serverError_def
            StatusInternalServerError_def)
    next
      case None
      with True a get show ?thesis
        by (simp add: HandlePrStatus_def HandlePrStatus_validate_def Let_def loginSession_def
            Hour_def split: step.splits)
    qed
  qed
next
  assume "\<not> (\<exists>t user e. Values s tokenKey = Some (TokenValue (Some t)) \<and> token_Valid w t \<and>
              GetUser w (AccessToken t) = (user, Some e) \<and> Contains (Error e) ''401'')"
  from HandlePrStatus_without_rejection [OF get this, of da qh r]
  show "\<forall>c\<in>set (cookies_set (HandlePrStatus da qh w r)).
          Cookie_MaxAge c = 0 \<and> Cookie_Expires c = now w + 2592000"
    and "\<forall>p\<in>set (sessions_saved (HandlePrStatus da qh w r)).
            Options_MaxAge (fst p) = Options_MaxAge s"
    by simp_all
qed

lemma validation_failure_by_text_example:
  "HandlePrStatus two_repos no_results
     (rejecting_world\<lparr>GetUser := (\<lambda>tok. (None, Some bad_gateway))\<rparr>) plain_request =
     [Ev_GetUser ''tok'',
      Ev_LogError ''Error Error with getting user login.'' bad_gateway,
      Ev_HttpError (''500 Internal server error Error with getting user login: ''
                    @ ''GET https://api.github.com/user: 502 Server Error []'') 500]
   \<and> (\<exists>rest. HandlePrStatus two_repos no_results rejecting_world plain_request =
         Ev_GetUser ''tok'' #
         Ev_Save (token_session\<lparr>Options_MaxAge := - 1\<rparr>) None #
         Ev_SetCookie \<lparr>Cookie_Name = ''github_login'', Cookie_Value = [],
                        Cookie_Path = ''/'', Cookie_Expires = 1699913600,
                        Cookie_MaxAge = - 1, Cookie_Secure = True\<rparr> # rest)
   \<and> cookies_set (HandlePrStatus two_repos no_results accepting_world plain_request) \<noteq> []
   \<and> Cookie_MaxAge
        (hd (cookies_set (HandlePrStatus two_repos no_results accepting_world plain_request))) = 0"
proof -
  let ?wg = "rejecting_world\<lparr>GetUser := (\<lambda>tok. (None, Some bad_gateway))\<rparr>"
  have get: "CookieStore_Get ?wg = (token_session, None)"
    "CookieStore_Get rejecting_world = (token_session, None)"
    "CookieStore_Get accepting_world = (token_session, None)"
    by (simp_all add: accepting_world_def rejecting_world_def anonymous_world_def)
  have val: "Values token_session tokenKey = Some (TokenValue (Some stored_token))"
    by (simp add: token_session_def)
  have tv: "token_Valid ?wg stored_token" "token_Valid rejecting_world stored_token"
    by (simp_all add: rejecting_world_def anonymous_world_def)
  have usr: "GetUser ?wg (AccessToken stored_token) = (None, Some bad_gateway)"
    "GetUser rejecting_world (AccessToken stored_token) = (None, Some bad_credentials)"
    by (simp_all add: rejecting_world_def anonymous_world_def)
  have sv: "session_Save rejecting_world (token_session\<lparr>Options_MaxAge := - 1\<rparr>) = None"
    by (simp add: rejecting_world_def anonymous_world_def)
  have nw: "now rejecting_world = 1700000000"
    by (simp add: rejecting_world_def anonymous_world_def)
  have first: "HandlePrStatus two_repos no_results ?wg plain_request =
     [Ev_GetUser ''tok'',
      Ev_LogError ''Error Error with getting user login.'' bad_gateway,
      Ev_HttpError (''500 Internal server error Error with getting user login: ''
                    @ ''GET https://api.github.com/user: 502 Server Error []'') 500]"
    using validation_failure_by_text [OF get(1), of two_repos no_results plain_request]
      val tv(1) usr(1) not_Contains_bad_gateway
    by (simp add: stored_token_def bad_gateway_def)
  have second: "\<exists>rest. HandlePrStatus two_repos no_results rejecting_world plain_request =
         Ev_GetUser ''tok'' #
         Ev_Save (token_session\<lparr>Options_MaxAge := - 1\<rparr>) None #
         Ev_SetCookie \<lparr>Cookie_Name = ''github_login'', Cookie_Value = [],
                        Cookie_Path = ''/'', Cookie_Expires = 1699913600,
                        Cookie_MaxAge = - 1, Cookie_Secure = True\<rparr> # rest"
    using validation_failure_by_text [OF get(2), of two_repos no_results plain_request]
      val tv(2) usr(2) Contains_bad_credentials sv nw
    by (simp add: stored_token_def)
  let ?cs = "cookies_set (HandlePrStatus two_repos no_results accepting_world plain_request)"
  have ne: "?cs \<noteq> []"
    by (simp add: HandlePrStatus_def HandlePrStatus_validate_def HandlePrStatus_login_def
        Let_def accepting_world_def rejecting_world_def anonymous_world_def token_session_def
        alice_def no_results_def trace_append respond_reads)
  have norej: "\<not> (\<exists>t user e. Values token_session tokenKey = Some (TokenValue (Some t)) \<and>
      token_Valid accepting_world t \<and>
      GetUser accepting_world (AccessToken t) = (user, Some e) \<and> Contains (Error e) ''401'')"
    by (simp add: accepting_world_def)
  from validation_failure_by_text [OF get(3), of two_repos no_results plain_request] norej
  have "\<forall>c\<in>set ?cs. Cookie_MaxAge c = 0 \<and>
      Cookie_Expires c = now accepting_world + 2592000"
    by blast
  with ne have third: "Cookie_MaxAge (hd ?cs) = 0"
    by simp
  from first second ne third show ?thesis by blast
qed

text \<open>
  C6 does not hold of the code. The handler tells a rejection from any other failure by
  looking for \<open>401\<close> in the text of the error. A connection reset is a network failure
  and so a transient error, whatever port it came from. With the local port 40212 in its
  text the handler answers with status 500 and leaves session and cookie alone, as the
  claim says; with the port 40112 it saves the session with max-age \<open>-1\<close>, expires the
  identity cookie and answers with the logged-out data and no error status.
\<close>

theorem connection_reset_invalidates_session:
  "spec_classify connection_reset = TransientError
   \<and> spec_classify connection_reset_40212 = TransientError
   \<and> HandlePrStatus two_repos no_results
       (rejecting_world\<lparr>GetUser := (\<lambda>tok. (None, Some connection_reset))\<rparr>) plain_request =
     [Ev_GetUser ''tok'',
      Ev_Save (token_session\<lparr>Options_MaxAge := - 1\<rparr>) None,
      Ev_SetCookie \<lparr>Cookie_Name = ''github_login'', Cookie_Value = [],
                     Cookie_Path = ''/'', Cookie_Expires = 1699913600,
                     Cookie_MaxAge = - 1, Cookie_Secure = True\<rparr>,
      Ev_Marshal \<lparr>Login = False, PullRequests = []\<rparr>,
      Ev_Write logged_out_json]
   \<and> HandlePrStatus two_repos no_results
       (rejecting_world\<lparr>GetUser := (\<lambda>tok. (None, Some connection_reset_40212))\<rparr>) plain_request =
     [Ev_GetUser ''tok'',
      Ev_LogError ''Error Error with getting user login.'' connection_reset_40212,
      Ev_HttpError (''500 Internal server error Error with getting user login: '' @
                    ''read tcp 10.4.0.12:40212->140.82.113.5:443: read: connection reset by peer'')
        500]"
proof -
  have c: "spec_classify connection_reset = TransientError"
    "spec_classify connection_reset_40212 = TransientError"
    by (simp_all add: spec_classify_def connection_reset_def connection_reset_40212_def)
  have n: "\<not> Contains (Error connection_reset_40212) ''401''"
    by (simp add: connection_reset_40212_def HasPrefix_def)
  have t1: "HandlePrStatus two_repos no_results
       (rejecting_world\<lparr>GetUser := (\<lambda>tok. (None, Some connection_reset))\<rparr>) plain_request =
     [Ev_GetUser ''tok'',
      Ev_Save (token_session\<lparr>Options_MaxAge := - 1\<rparr>) None,
      Ev_SetCookie \<lparr>Cookie_Name = ''github_login'', Cookie_Value = [],
                     Cookie_Path = ''/'', Cookie_Expires = 1699913600,
                     Cookie_MaxAge = - 1, Cookie_Secure = True\<rparr>,
      Ev_Marshal \<lparr>Login = False, PullRequests = []\<rparr>,
      Ev_Write logged_out_json]"
    using Contains_connection_reset
    by (simp add: HandlePrStatus_def HandlePrStatus_validate_def HandlePrStatus_login_def
        HandlePrStatus_respond_def Let_def rejecting_world_def anonymous_world_def
        token_session_def stored_token_def plain_request_def stub_Marshal_def Values_Get_def
        loginSession_def Hour_def)
  have t2: "HandlePrStatus two_repos no_results
       (rejecting_world\<lparr>GetUser := (\<lambda>tok. (None, Some connection_reset_40212))\<rparr>) plain_request =
     [Ev_GetUser ''tok'',
      Ev_LogError ''Error Error with getting user login.'' connection_reset_40212,
      Ev_HttpError (''500 Internal server error Error with getting user login: '' @
                    ''read tcp 10.4.0.12:40212->140.82.113.5:443: read: connection reset by peer'')
        500]"
    using n
    by (simp add: HandlePrStatus_def HandlePrStatus_validate_def Let_def rejecting_world_def
        anonymous_world_def token_session_def stored_token_def serverError_def
        StatusInternalServerError_def)
       (simp add: connection_reset_40212_def)
  from c t1 t2 show ?thesis by blast
qed

text \<open>
  C7. Whatever the session store, the remote service, the query handler and the request
  do, the handler serialises at most one \<open>UserData\<close>, and one whose \<open>Login\<close> is false has
  no pull requests.
\<close>

theorem UserData_invariant:
  "(\<forall>d\<in>set (marshalled (HandlePrStatus da qh w r)). \<not> Login d \<longrightarrow> PullRequests d = [])
   \<and> length (marshalled (HandlePrStatus da qh w r)) \<le> 1"
  using HandlePrStatus_cases [of da qh w r]
  by (auto simp: trace_append respond_reads)

theorem UserData_invariant_witness:
  "marshalled (HandlePrStatus two_repos no_results anonymous_world plain_request) =
     [\<lparr>Login = False, PullRequests = []\<rparr>]
   \<and> \<not> Login (hd (marshalled (HandlePrStatus two_repos no_results anonymous_world plain_request)))
   \<and> PullRequests (hd (marshalled (HandlePrStatus two_repos no_results anonymous_world plain_request))) = []"
proof -
  let ?m = "marshalled (HandlePrStatus two_repos no_results anonymous_world plain_request)"
  have m: "?m = [\<lparr>Login = False, PullRequests = []\<rparr>]"
    by (simp add: anonymous_trace)
  then have mem: "hd ?m \<in> set ?m" and out: "\<not> Login (hd ?m)"
    by simp_all
  from UserData_invariant [of two_repos no_results anonymous_world plain_request] mem out
  have "PullRequests (hd ?m) = []"
    by blast
  with m out show ?thesis by blast
qed

text \<open>
  C8. Every run of the handler ends in one of three ways: with status 500, with a panic,
  or with the serialisation of one \<open>UserData\<close> and no error status; and whenever that
  serialisation succeeds with the text \<open>js\<close>, the response body is \<open>var <name> = js;\<close>
  if the URL query has a non-empty \<open>var\<close> of value \<open><name>\<close>, and exactly \<open>js\<close> if
  \<open>var\<close> is absent or empty. In particular this is the body for a logged-in user (valid
  stored token, identity call answered with a user who has a login, session saved, search
  answered with the pull requests \<open>prs\<close>), whose payload is \<open>Login = true\<close> with \<open>prs\<close>,
  and for a request without a valid stored token, whose payload is the logged-out one.
\<close>

theorem response_body_wrapping:
  "((marshalled (HandlePrStatus da qh w r) = [] \<and>
       (http_errors (HandlePrStatus da qh w r) = [500] \<or>
        (HandlePrStatus da qh w r \<noteq> [] \<and> last (HandlePrStatus da qh w r) = Ev_Panic))) \<or>
    (\<exists>data. marshalled (HandlePrStatus da qh w r) = [data] \<and>
       http_errors (HandlePrStatus da qh w r) = [] \<and>
       (\<forall>js. json_Marshal w data = Inr js \<longrightarrow>
          body_of (HandlePrStatus da qh w r) =
            (if Values_Get (URL_Query r) ''var'' \<noteq> []
             then ''var '' @ Values_Get (URL_Query r) ''var'' @ '' = '' @ js @ '';''
             else js))))
   \<and> (CookieStore_Get w = (s, None) \<and>
        Values s tokenKey = Some (TokenValue (Some t)) \<and> token_Valid w t \<and>
        GetUser w (AccessToken t) = (Some u, None) \<and> User_Login u = Some login \<and>
        session_Save w (s\<lparr>Values := (Values s)(loginKey \<mapsto> StringValue login)\<rparr>) = None \<and>
        qh (AccessToken t) (HandlePrStatus_query da r login) = (prs, None) \<and>
        json_Marshal w \<lparr>Login = True, PullRequests = prs\<rparr> = Inr js \<longrightarrow>
        marshalled (HandlePrStatus da qh w r) = [\<lparr>Login = True, PullRequests = prs\<rparr>] \<and>
        body_of (HandlePrStatus da qh w r) =
          (if Values_Get (URL_Query r) ''var'' \<noteq> []
           then ''var '' @ Values_Get (URL_Query r) ''var'' @ '' = '' @ js @ '';''
           else js))
   \<and> (CookieStore_Get w = (s, None) \<and>
        (\<forall>t. Values s tokenKey = Some (TokenValue (Some t)) \<longrightarrow> \<not> token_Valid w t) \<and>
        json_Marshal w \<lparr>Login = False, PullRequests = []\<rparr> = Inr js \<longrightarrow>
        marshalled (HandlePrStatus da qh w r) = [\<lparr>Login = False, PullRequests = []\<rparr>] \<and>
        body_of (HandlePrStatus da qh w r) =
          (if Values_Get (URL_Query r) ''var'' \<noteq> []
           then ''var '' @ Values_Get (URL_Query r) ''var'' @ '' = '' @ js @ '';''
           else js))"
proof (intro conjI impI)
  show "(marshalled (HandlePrStatus da qh w r) = [] \<and>
       (http_errors (HandlePrStatus da qh w r) = [500] \<or>
        (HandlePrStatus da qh w r \<noteq> [] \<and> last (HandlePrStatus da qh w r) = Ev_Panic))) \<or>
    (\<exists>data. marshalled (HandlePrStatus da qh w r) = [data] \<and>
       http_errors (HandlePrStatus da qh w r) = [] \<and>
       (\<forall>js. json_Marshal w data = Inr js \<longrightarrow>
          body_of (HandlePrStatus da qh w r) =
            (if Values_Get (URL_Query r) ''var'' \<noteq> []
             then ''var '' @ Values_Get (URL_Query r) ''var'' @ '' = '' @ js @ '';''
             else js)))"
    using HandlePrStatus_outcome [of da qh w r]
  proof
    assume "marshalled (HandlePrStatus da qh w r) = [] \<and>
      (http_errors (HandlePrStatus da qh w r) = [500] \<or>
       (HandlePrStatus da qh w r \<noteq> [] \<and> last (HandlePrStatus da qh w r) = Ev_Panic))"
    then show ?thesis ..
  next
    assume "\<exists>tr data. HandlePrStatus da qh w r = tr @ HandlePrStatus_respond w r data \<and>
      body_of tr = [] \<and> http_errors tr = [] \<and> marshalled tr = []"
    then obtain tr data where H: "HandlePrStatus da qh w r = tr @ HandlePrStatus_respond w r data"
      and tr: "body_of tr = []" "http_errors tr = []" "marshalled tr = []"
      by blast
    have "marshalled (HandlePrStatus da qh w r) = [data]"
      "http_errors (HandlePrStatus da qh w r) = []"
      unfolding H using tr by (simp_all add: trace_append respond_reads)
    moreover have "\<forall>js. json_Marshal w data = Inr js \<longrightarrow>
          body_of (HandlePrStatus da qh w r) =
            (if Values_Get (URL_Query r) ''var'' \<noteq> []
             then ''var '' @ Values_Get (URL_Query r) ''var'' @ '' = '' @ js @ '';''
             else js)"
      unfolding H using tr by (simp add: trace_append respond_body_ok)
    ultimately show ?thesis by blast
  qed
next
  assume a: "CookieStore_Get w = (s, None) \<and>
        Values s tokenKey = Some (TokenValue (Some t)) \<and> token_Valid w t \<and>
        GetUser w (AccessToken t) = (Some u, None) \<and> User_Login u = Some login \<and>
        session_Save w (s\<lparr>Values := (Values s)(loginKey \<mapsto> StringValue login)\<rparr>) = None \<and>
        qh (AccessToken t) (HandlePrStatus_query da r login) = (prs, None) \<and>
        json_Marshal w \<lparr>Login = True, PullRequests = prs\<rparr> = Inr js"
  then have H: "HandlePrStatus da qh w r =
           [Ev_GetUser (AccessToken t),
            Ev_SetCookie \<lparr>Cookie_Name = ''github_login'', Cookie_Value = login,
                           Cookie_Path = ''/'', Cookie_Expires = now w + 2592000,
                           Cookie_MaxAge = 0, Cookie_Secure = True\<rparr>,
            Ev_Save (s\<lparr>Values := (Values s)(loginKey \<mapsto> StringValue login)\<rparr>) None,
            Ev_Query (AccessToken t) (HandlePrStatus_query da r login)]
           @ HandlePrStatus_respond w r \<lparr>Login = True, PullRequests = prs\<rparr>"
    by (intro logged_in_trace [where s = s and t = t and u = u and login = login]) simp_all
  show "marshalled (HandlePrStatus da qh w r) = [\<lparr>Login = True, PullRequests = prs\<rparr>]"
    unfolding H by (simp add: trace_append respond_reads)
  from a have j: "json_Marshal w \<lparr>Login = True, PullRequests = prs\<rparr> = Inr js" by simp
  show "body_of (HandlePrStatus da qh w r) =
          (if Values_Get (URL_Query r) ''var'' \<noteq> []
           then ''var '' @ Values_Get (URL_Query r) ''var'' @ '' = '' @ js @ '';''
           else js)"
    unfolding H by (simp add: trace_append respond_body_ok [OF j])
next
  assume a: "CookieStore_Get w = (s, None) \<and>
        (\<forall>t. Values s tokenKey = Some (TokenValue (Some t)) \<longrightarrow> \<not> token_Valid w t) \<and>
        json_Marshal w \<lparr>Login = False, PullRequests = []\<rparr> = Inr js"
  then have H: "HandlePrStatus da qh w r =
           HandlePrStatus_respond w r \<lparr>Login = False, PullRequests = []\<rparr>"
    by (intro no_credential_trace [where s = s]) auto
  show "marshalled (HandlePrStatus da qh w r) = [\<lparr>Login = False, PullRequests = []\<rparr>]"
    unfolding H by (simp add: respond_reads)
  from a have j: "json_Marshal w \<lparr>Login = False, PullRequests = []\<rparr> = Inr js" by simp
  show "body_of (HandlePrStatus da qh w r) =
          (if Values_Get (URL_Query r) ''var'' \<noteq> []
           then ''var '' @ Values_Get (URL_Query r) ''var'' @ '' = '' @ js @ '';''
           else js)"
    unfolding H by (simp add: respond_body_ok [OF j])
qed

theorem response_body_wrapping_witness:
  "marshalled (HandlePrStatus two_repos one_result accepting_world var_request) =
     [\<lparr>Login = True, PullRequests = [pr 7]\<rparr>]
   \<and> body_of (HandlePrStatus two_repos one_result accepting_world var_request) =
       ''var data = {...};''
   \<and> body_of (HandlePrStatus two_repos one_result accepting_world plain_request) = ''{...}''
   \<and> marshalled (HandlePrStatus two_repos one_result anonymous_world var_request) =
     [\<lparr>Login = False, PullRequests = []\<rparr>]
   \<and> body_of (HandlePrStatus two_repos one_result anonymous_world var_request) =
       ''var data = '' @ logged_out_json @ '';''
   \<and> body_of (HandlePrStatus two_repos one_result anonymous_world plain_request) =
       logged_out_json"
proof -
  have get: "CookieStore_Get accepting_world = (token_session, None)"
    by (simp add: accepting_world_def rejecting_world_def anonymous_world_def)
  have val: "Values token_session tokenKey = Some (TokenValue (Some stored_token))"
    by (simp add: token_session_def)
  have tv: "token_Valid accepting_world stored_token"
    by (simp add: accepting_world_def rejecting_world_def anonymous_world_def)
  have usr: "GetUser accepting_world (AccessToken stored_token) = (Some alice, None)"
    by (simp add: accepting_world_def)
  have lg: "User_Login alice = Some ''alice''"
    by (simp add: alice_def)
  have sv: "session_Save accepting_world
      (token_session\<lparr>Values := (Values token_session)(loginKey \<mapsto> StringValue ''alice'')\<rparr>) = None"
    by (simp add: accepting_world_def rejecting_world_def anonymous_world_def)
  have qh: "one_result (AccessToken stored_token) (HandlePrStatus_query two_repos r ''alice'') =
      ([pr 7], None)" for r
    by (simp add: one_result_def)
  have js: "json_Marshal accepting_world \<lparr>Login = True, PullRequests = [pr 7]\<rparr> = Inr ''{...}''"
    by (simp add: accepting_world_def rejecting_world_def anonymous_world_def stub_Marshal_def)
  have v: "Values_Get (URL_Query var_request) ''var'' = ''data''"
    "Values_Get (URL_Query plain_request) ''var'' = []"
    by (simp_all add: var_request_def plain_request_def Values_Get_def)
  have in1: "marshalled (HandlePrStatus two_repos one_result accepting_world var_request) =
       [\<lparr>Login = True, PullRequests = [pr 7]\<rparr>]
     \<and> body_of (HandlePrStatus two_repos one_result accepting_world var_request) =
       ''var data = {...};''"
    using response_body_wrapping [of two_repos one_result accepting_world var_request
        token_session stored_token alice "''alice''" "[pr 7]" "''{...}''"]
      get val tv usr lg sv qh [of var_request] js v
    by simp
  have in2: "body_of (HandlePrStatus two_repos one_result accepting_world plain_request) = ''{...}''"
    using response_body_wrapping [of two_repos one_result accepting_world plain_request
        token_session stored_token alice "''alice''" "[pr 7]" "''{...}''"]
      get val tv usr lg sv qh [of plain_request] js v
    by simp
  have get0: "CookieStore_Get anonymous_world = (empty_session, None)"
    by (simp add: anonymous_world_def)
  have val0: "\<forall>t. Values empty_session tokenKey = Some (TokenValue (Some t)) \<longrightarrow>
      \<not> token_Valid anonymous_world t"
    by (simp add: empty_session_def)
  have js0: "json_Marshal anonymous_world \<lparr>Login = False, PullRequests = []\<rparr> = Inr logged_out_json"
    by (simp add: anonymous_world_def stub_Marshal_def)
  have out1: "marshalled (HandlePrStatus two_repos one_result anonymous_world var_request) =
       [\<lparr>Login = False, PullRequests = []\<rparr>]
     \<and> body_of (HandlePrStatus two_repos one_result anonymous_world var_request) =
       ''var data = '' @ logged_out_json @ '';''"
    using response_body_wrapping [of two_repos one_result anonymous_world var_request
        empty_session _ _ _ _ logged_out_json]
      get0 val0 js0 v
    by simp
  have out2: "body_of (HandlePrStatus two_repos one_result anonymous_world plain_request) =
       logged_out_json"
    using response_body_wrapping [of two_repos one_result anonymous_world plain_request
        empty_session _ _ _ _ logged_out_json]
      get0 val0 js0 v
    by simp
  from in1 in2 out1 out2 show ?thesis by blast
qed

text \<open>
  C9 does not hold of the code. After a failed \<open>json.Marshal\<close> the handler logs the
  error and goes on to the write (every other error of the handler is followed by a
  \<open>return\<close>). For a logged-in request \<open>/pr-status?var=data\<close> whose pull requests
  cannot be encoded, no error status is sent and the body is \<open>var data = ;\<close>, not empty.
\<close>

theorem failed_marshal_still_writes:
  "json_Marshal (accepting_world\<lparr>json_Marshal := failing_Marshal\<rparr>)
     \<lparr>Login = True, PullRequests = [pr 7]\<rparr> = Inl unsupported_value
   \<and> marshalled (HandlePrStatus two_repos one_result
        (accepting_world\<lparr>json_Marshal := failing_Marshal\<rparr>) var_request) =
     [\<lparr>Login = True, PullRequests = [pr 7]\<rparr>]
   \<and> http_errors (HandlePrStatus two_repos one_result
        (accepting_world\<lparr>json_Marshal := failing_Marshal\<rparr>) var_request) = []
   \<and> body_of (HandlePrStatus two_repos one_result
        (accepting_world\<lparr>json_Marshal := failing_Marshal\<rparr>) var_request) = ''var data = ;''"
proof -
  let ?w = "accepting_world\<lparr>json_Marshal := failing_Marshal\<rparr>"
  let ?d = "\<lparr>Login = True, PullRequests = [pr 7]\<rparr>"
  have j: "json_Marshal ?w ?d = Inl unsupported_value"
    by (simp add: failing_Marshal_def)
  have m: "marshalled (HandlePrStatus two_repos one_result ?w var_request) = [?d]"
    by (simp add: HandlePrStatus_def HandlePrStatus_validate_def HandlePrStatus_login_def
        Let_def accepting_world_def rejecting_world_def anonymous_world_def token_session_def
        alice_def one_result_def trace_append respond_reads)
  have h: "http_errors (HandlePrStatus two_repos one_result ?w var_request) = []"
    by (simp add: HandlePrStatus_def HandlePrStatus_validate_def HandlePrStatus_login_def
        Let_def accepting_world_def rejecting_world_def anonymous_world_def token_session_def
        alice_def one_result_def trace_append respond_reads)
  have v: "Values_Get (URL_Query var_request) ''var'' = ''data''"
    by (simp add: var_request_def Values_Get_def)
  from failed_marshal_body [OF m j] v
  have b: "body_of (HandlePrStatus two_repos one_result ?w var_request) = ''var data = ;''"
    by simp
  from j m h b show ?thesis by blast
qed

text \<open>
  C10. In a logged-in request (valid stored token, identity call answered with a user
  who has a login, session saved) the handler issues exactly one search. Its query is
  the form value of \<open>query\<close> when the form parsed and that value is not empty, followed
  by the configured \<open>repo:\<close> tokens unless it constrains the repositories itself; in
  every other case it is the default query built from the verified login, unchanged.
\<close>

theorem query_override:
  assumes "CookieStore_Get w = (s, None)"
      and "Values s tokenKey = Some (TokenValue (Some t))"
      and "token_Valid w t"
      and "GetUser w (AccessToken t) = (Some u, None)"
      and "User_Login u = Some login"
      and "session_Save w (s\<lparr>Values := (Values s)(loginKey \<mapsto> StringValue login)\<rparr>) = None"
  shows "queries_issued (HandlePrStatus da qh w r) =
           [(AccessToken t,
             if ParseForm_err r = None \<and> Values_Get (Form r) ''query'' \<noteq> []
             then (if queryConstrainsRepos (Values_Get (Form r) ''query'')
                   then Values_Get (Form r) ''query''
                   else Values_Get (Form r) ''query'' @
                        concat (map (\<lambda>v. '' repo:'' @ [CHR 0x22] @ v @ [CHR 0x22]) (repos da)))
             else ConstructSearchQuery da login)]"
proof -
  have fn: "(\<lambda>v. '' repo:'' @ [CHR 0x22] @ v @ [CHR 0x22]) = Sprintf_sp_repo"
    by (rule ext) (simp add: Sprintf_sp_repo_def dquote_def)
  have "queries_issued (HandlePrStatus da qh w r) =
          [(AccessToken t, HandlePrStatus_query da r login)]"
    using assms
    by (simp add: HandlePrStatus_def HandlePrStatus_validate_def HandlePrStatus_login_def
        Let_def serverError_reads trace_append respond_reads split: prod.splits option.splits)
  then show ?thesis
    unfolding fn HandlePrStatus_query_eq .
qed

theorem query_override_witness:
  "queries_issued (HandlePrStatus two_repos no_results accepting_world override_request) =
     [(''tok'', ''is:pr org:kubernetes'')]
   \<and> queries_issued (HandlePrStatus two_repos no_results accepting_world plain_request) =
     [(''tok'', ''is:pr state:open author:alice repo:'' @ [dquote] @ ''o/r1'' @ [dquote] @
               '' repo:'' @ [dquote] @ ''o/r2'' @ [dquote])]
   \<and> queries_issued (HandlePrStatus two_repos no_results accepting_world unscoped_request) =
     [(''tok'', ''is:open repo:'' @ [dquote] @ ''o/r1'' @ [dquote] @
               '' repo:'' @ [dquote] @ ''o/r2'' @ [dquote])]"
proof -
  have get: "CookieStore_Get accepting_world = (token_session, None)"
    by (simp add: accepting_world_def rejecting_world_def anonymous_world_def)
  have val: "Values token_session tokenKey = Some (TokenValue (Some stored_token))"
    by (simp add: token_session_def)
  have tv: "token_Valid accepting_world stored_token"
    by (simp add: accepting_world_def rejecting_world_def anonymous_world_def)
  have usr: "GetUser accepting_world (AccessToken stored_token) = (Some alice, None)"
    by (simp add: accepting_world_def)
  have lg: "User_Login alice = Some ''alice''"
    by (simp add: alice_def)
  have sv: "session_Save accepting_world
      (token_session\<lparr>Values := (Values token_session)(loginKey \<mapsto> StringValue ''alice'')\<rparr>) = None"
    by (simp add: accepting_world_def rejecting_world_def anonymous_world_def)
  note q = query_override [OF get val tv usr lg sv, of two_repos no_results]
  have f1: "ParseForm_err override_request = None"
    "Values_Get (Form override_request) ''query'' = ''is:pr org:kubernetes''"
    "queryConstrainsRepos ''is:pr org:kubernetes''"
    by (simp_all add: override_request_def Values_Get_def queryConstrainsRepos_def HasPrefix_def)
  have f2: "Values_Get (Form plain_request) ''query'' = []"
    by (simp add: plain_request_def Values_Get_def)
  have f3: "ParseForm_err unscoped_request = None"
    "Values_Get (Form unscoped_request) ''query'' = ''is:open''"
    "\<not> queryConstrainsRepos ''is:open''"
    by (simp_all add: unscoped_request_def Values_Get_def queryConstrainsRepos_def HasPrefix_def)
  have tk: "AccessToken stored_token = ''tok''"
    by (simp add: stored_token_def)
  have c1: "queries_issued (HandlePrStatus two_repos no_results accepting_world override_request) =
     [(''tok'', ''is:pr org:kubernetes'')]"
    using q [of override_request] by (simp add: f1 tk)
  have c2: "queries_issued (HandlePrStatus two_repos no_results accepting_world plain_request) =
     [(''tok'', ''is:pr state:open author:alice repo:'' @ [dquote] @ ''o/r1'' @ [dquote] @
               '' repo:'' @ [dquote] @ ''o/r2'' @ [dquote])]"
    using q [of plain_request] by (simp add: f2 tk default_query_two_repos)
  have c3: "queries_issued (HandlePrStatus two_repos no_results accepting_world unscoped_request) =
     [(''tok'', ''is:open repo:'' @ [dquote] @ ''o/r1'' @ [dquote] @
               '' repo:'' @ [dquote] @ ''o/r2'' @ [dquote])]"
    using q [of unscoped_request] by (simp add: f3 tk two_repos_def dquote_def)
  from c1 c2 c3 show ?thesis by blast
qed

end
